theory Spec2Isabelle
  imports Main "HOL-Library.Word" "HOL-Library.AList"
begin

section \<open>Mobile Secrets Vault: data and platform\<close>

text \<open>
  The vault is Python code. Its values are modelled as follows:
  \<^item> \<open>bytes\<close> is a list of 8-bit words;
  \<^item> \<open>str\<close> is a list of code points (natural numbers), as Python's \<open>str\<close> is a sequence
    of code points and not of bytes; a \<open>str\<close> can hold a lone surrogate (U+D800 to U+DFFF),
    which UTF-8 refuses to encode;
  \<^item> exceptions are values of the type \<open>error\<close>, and a function that can raise returns
    \<open>error + 'a\<close>;
  \<^item> the operating system (random bytes, the clock, standard output, the vault file and
    its backup) is the record \<open>world\<close>, passed through every function that touches it.
\<close>

type_synonym byte = "8 word"
type_synonym bytes = "byte list"
type_synonym str = "nat list"

definition byte_of :: "nat \<Rightarrow> byte" where
  "byte_of n = of_nat n"

text \<open>
  The exceptions of the code, named by the error kinds of the specification:
  \<^item> \<open>KeyLengthError\<close> is \<open>ValueError("Key must be 32 bytes, got ...")\<close>;
  \<^item> \<open>MalformedBlobError\<close> is \<open>ValueError("Encrypted data must contain ...")\<close> and
    \<open>ValueError("Failed to decode encrypted data: ...")\<close>;
  \<^item> \<open>AuthenticationError\<close> is \<open>cryptography.exceptions.InvalidTag\<close>;
  \<^item> \<open>NonceLengthError\<close> is the \<open>ValueError\<close> that the cipher raises for a nonce whose
    length it does not accept;
  \<^item> \<open>UnicodeEncodeError\<close> and \<open>UnicodeDecodeError\<close> come from the UTF-8 codec;
  \<^item> \<open>SecretNotFoundError\<close> and \<open>VaultError\<close> are the classes of \<open>vault.py\<close>;
    \<open>VaultError e\<close> is \<open>VaultError(f"Failed to ...: {e}")\<close>, built from the exception
    \<open>e\<close> that was caught;
  \<^item> \<open>IoError\<close> is the \<open>IOError\<close> of \<open>storage.py\<close>.
\<close>

datatype error =
    KeyLengthError
  | MalformedBlobError
  | AuthenticationError
  | NonceLengthError
  | UnicodeEncodeError
  | UnicodeDecodeError
  | SecretNotFoundError
  | IoError
  | VaultError error

subsection \<open>UTF-8 (\<open>str.encode("utf-8")\<close> and \<open>bytes.decode("utf-8")\<close>)\<close>

text \<open>
  The encoder raises \<open>UnicodeEncodeError\<close> on a surrogate code point; a code point
  above U+10FFFF cannot occur in a Python \<open>str\<close> and is refused as well.
\<close>

definition utf8_encode_char :: "nat \<Rightarrow> bytes option" where
  "utf8_encode_char c =
    (if c < 0x80 then Some [byte_of c]
     else if c < 0x800 then Some [byte_of (0xC0 + c div 64), byte_of (0x80 + c mod 64)]
     else if 0xD800 \<le> c \<and> c \<le> 0xDFFF then None
     else if c < 0x10000 then
       Some [byte_of (0xE0 + c div 4096), byte_of (0x80 + c div 64 mod 64),
             byte_of (0x80 + c mod 64)]
     else if c < 0x110000 then
       Some [byte_of (0xF0 + c div 262144), byte_of (0x80 + c div 4096 mod 64),
             byte_of (0x80 + c div 64 mod 64), byte_of (0x80 + c mod 64)]
     else None)"

fun utf8_encode :: "str \<Rightarrow> bytes option" where
  "utf8_encode [] = Some []"
| "utf8_encode (c # cs) =
    (case utf8_encode_char c of
       None \<Rightarrow> None
     | Some bs \<Rightarrow> (case utf8_encode cs of None \<Rightarrow> None | Some rest \<Rightarrow> Some (bs @ rest)))"

definition is_continuation :: "byte \<Rightarrow> bool" where
  "is_continuation b \<longleftrightarrow> 0x80 \<le> unat b \<and> unat b < 0xC0"

text \<open>
  The strict decoder: \<open>utf8_decode_char b bs\<close> reads the code point that starts with the
  lead byte \<open>b\<close> and returns it with the number of continuation bytes it used. Overlong
  forms, surrogates and values above U+10FFFF are refused.
\<close>

definition utf8_decode_char :: "byte \<Rightarrow> bytes \<Rightarrow> (nat \<times> nat) option" where
  "utf8_decode_char b bs =
    (let n = unat b in
     if n < 0x80 then Some (n, 0)
     else if 0xC2 \<le> n \<and> n < 0xE0 then
       (case bs of
          c1 # r \<Rightarrow>
            if is_continuation c1
            then Some ((n - 0xC0) * 64 + (unat c1 - 0x80), 1)
            else None
        | _ \<Rightarrow> None)
     else if 0xE0 \<le> n \<and> n < 0xF0 then
       (case bs of
          c1 # c2 # r \<Rightarrow>
            (let cp = (n - 0xE0) * 4096 + (unat c1 - 0x80) * 64 + (unat c2 - 0x80) in
             if is_continuation c1 \<and> is_continuation c2 \<and> 0x800 \<le> cp
                \<and> \<not> (0xD800 \<le> cp \<and> cp \<le> 0xDFFF)
             then Some (cp, 2)
             else None)
        | _ \<Rightarrow> None)
     else if 0xF0 \<le> n \<and> n < 0xF5 then
       (case bs of
          c1 # c2 # c3 # r \<Rightarrow>
            (let cp = (n - 0xF0) * 262144 + (unat c1 - 0x80) * 4096
                      + (unat c2 - 0x80) * 64 + (unat c3 - 0x80) in
             if is_continuation c1 \<and> is_continuation c2 \<and> is_continuation c3
                \<and> 0x10000 \<le> cp \<and> cp < 0x110000
             then Some (cp, 3)
             else None)
        | _ \<Rightarrow> None)
     else None)"

function utf8_decode :: "bytes \<Rightarrow> str option" where
  "utf8_decode [] = Some []"
| "utf8_decode (b # bs) =
    (case utf8_decode_char b bs of
       None \<Rightarrow> None
     | Some (cp, k) \<Rightarrow> map_option ((#) cp) (utf8_decode (drop k bs)))"
  by pat_completeness auto
termination
  by (relation "measure length") auto

subsection \<open>Base64 (\<open>base64.b64encode\<close> and \<open>base64.b64decode\<close>)\<close>

text \<open>
  The alphabet \<open>A-Z a-z 0-9 + /\<close> as code points, and its inverse table. The pad
  character \<open>=\<close> is code point 61.
\<close>

definition table_b2a_base64 :: "nat \<Rightarrow> nat" where
  "table_b2a_base64 i =
    (if i < 26 then 65 + i
     else if i < 52 then 71 + i
     else if i < 62 then i - 4
     else if i = 62 then 43
     else 47)"

definition table_a2b_base64 :: "nat \<Rightarrow> nat option" where
  "table_a2b_base64 c =
    (if 65 \<le> c \<and> c \<le> 90 then Some (c - 65)
     else if 97 \<le> c \<and> c \<le> 122 then Some (c - 71)
     else if 48 \<le> c \<and> c \<le> 57 then Some (c + 4)
     else if c = 43 then Some 62
     else if c = 47 then Some 63
     else None)"

definition BASE64_PAD :: nat where
  "BASE64_PAD = 61"

fun b64encode :: "bytes \<Rightarrow> str" where
  "b64encode [] = []"
| "b64encode [a] =
    [table_b2a_base64 (unat a div 4), table_b2a_base64 (unat a mod 4 * 16),
     BASE64_PAD, BASE64_PAD]"
| "b64encode [a, b] =
    [table_b2a_base64 (unat a div 4),
     table_b2a_base64 (unat a mod 4 * 16 + unat b div 16),
     table_b2a_base64 (unat b mod 16 * 4), BASE64_PAD]"
| "b64encode (a # b # c # rest) =
    [table_b2a_base64 (unat a div 4),
     table_b2a_base64 (unat a mod 4 * 16 + unat b div 16),
     table_b2a_base64 (unat b mod 16 * 4 + unat c div 64),
     table_b2a_base64 (unat c mod 64)] @ b64encode rest"

text \<open>
  \<open>base64.b64decode(s)\<close> is called with its default \<open>validate=False\<close>. A \<open>str\<close> is
  first encoded as ASCII (a non-ASCII character raises \<open>ValueError\<close>); then
  \<open>binascii.a2b_base64\<close> runs in its non-strict mode, which the function
  \<open>a2b_base64\<close> follows character by character: \<open>q\<close> is \<open>quad_pos\<close>, \<open>l\<close> is
  \<open>leftchar\<close>, \<open>p\<close> is \<open>pads\<close>. A character outside the alphabet is skipped; a pad
  that completes a quad ends the decoding; input that ends inside a quad raises
  \<open>binascii.Error\<close>. \<open>None\<close> stands for the exception.
\<close>

fun a2b_base64 :: "nat list \<Rightarrow> nat \<Rightarrow> nat \<Rightarrow> nat \<Rightarrow> bytes option" where
  "a2b_base64 [] q l p = (if q = 0 then Some [] else None)"
| "a2b_base64 (c # cs) q l p =
    (if c = BASE64_PAD then
       (if 2 \<le> q \<and> 4 \<le> q + (p + 1) then Some []
        else a2b_base64 cs q l (if 2 \<le> q then p + 1 else p))
     else
       (case table_a2b_base64 c of
          None \<Rightarrow> a2b_base64 cs q l p
        | Some v \<Rightarrow>
            (if q = 0 then a2b_base64 cs 1 v 0
             else if q = 1 then
               map_option ((#) (byte_of (l * 4 + v div 16))) (a2b_base64 cs 2 (v mod 16) 0)
             else if q = 2 then
               map_option ((#) (byte_of (l * 16 + v div 4))) (a2b_base64 cs 3 (v mod 4) 0)
             else
               map_option ((#) (byte_of (l * 64 + v))) (a2b_base64 cs 0 0 0))))"

definition b64decode :: "str \<Rightarrow> bytes option" where
  "b64decode s = (if \<exists>c \<in> set s. 128 \<le> c then None else a2b_base64 s 0 0 0)"

subsection \<open>Documents and the operating system\<close>

text \<open>
  An encrypted blob is the dictionary \<open>{"ciphertext": ..., "nonce": ...}\<close>; a field is
  \<open>None\<close> when the key is not in the dictionary. Metadata values are JSON-like. A
  dictionary whose iteration order matters is an association list in insertion order.
\<close>

record blob =
  ciphertext :: "str option"
  nonce :: "str option"

datatype json =
    JNull
  | JBool bool
  | JInt int
  | JStr str
  | JList "json list"
  | JDict "(str \<times> json) list"

type_synonym metadata_dict = "(str \<times> json) list"

text \<open>
  The document that \<open>to_dict\<close> produces and \<open>from_dict\<close> reads (the content of the vault
  file). In a version's dictionary \<open>"timestamp"\<close> and \<open>"metadata"\<close> are read with
  \<open>.get\<close>: \<open>None\<close> stands for a missing key and for the value \<open>None\<close>.
\<close>

record version_doc =
  d_version :: int
  d_encrypted_value :: blob
  d_timestamp :: "str option"
  d_metadata :: "metadata_dict option"

record key_doc =
  d_versions :: "version_doc list"
  d_current_version :: int

type_synonym document = "(str \<times> key_doc) list"

datatype message =
    RotateWarning str int error
  | LoadWarning error

datatype file_state = Missing | Unreadable | Stored document

text \<open>
  \<open>entropy\<close> is the tape of bytes that \<open>os.urandom\<close> will return, \<open>clock\<close> the successive
  readings of \<open>datetime.utcnow().isoformat() + "Z"\<close>; reading either advances the tape.
  \<open>stdout\<close> collects what \<open>print\<close> writes. \<open>secrets_file\<close> and \<open>backup_file\<close> are the
  vault file and its \<open>.backup\<close>; \<open>fs_writable\<close> says whether writing the vault file
  succeeds.
\<close>

record world =
  entropy :: "nat \<Rightarrow> byte"
  clock :: "nat \<Rightarrow> str"
  stdout :: "message list"
  secrets_file :: file_state
  backup_file :: file_state
  fs_writable :: bool

definition os_urandom :: "nat \<Rightarrow> world \<Rightarrow> bytes \<times> world" where
  "os_urandom n w = (map (entropy w) [0..<n], w\<lparr>entropy := \<lambda>i. entropy w (i + n)\<rparr>)"

definition utcnow :: "world \<Rightarrow> str \<times> world" where
  "utcnow w = (clock w 0, w\<lparr>clock := \<lambda>i. clock w (Suc i)\<rparr>)"

definition print :: "message \<Rightarrow> world \<Rightarrow> world" where
  "print m w = w\<lparr>stdout := stdout w @ [m]\<rparr>"

subsection \<open>The AEAD cipher\<close>

text \<open>
  \<open>cryptography\<close>'s \<open>AESGCM\<close> is a library outside the repository. It is a parameter of
  the model: \<open>aes_encrypt key nonce data\<close> is \<open>AESGCM(key).encrypt(nonce, data, None)\<close>
  (the ciphertext with the tag appended) and \<open>aes_decrypt key nonce data\<close> is
  \<open>AESGCM(key).decrypt(nonce, data, None)\<close>, which raises \<open>InvalidTag\<close> or refuses the
  nonce. \<open>aead_correct\<close> is the contract of the library that the theorems rely on: with a
  32-byte key and a 12-byte nonce, decryption inverts encryption.
\<close>

datatype aead_failure = InvalidTag | InvalidNonce

record aead =
  aes_encrypt :: "bytes \<Rightarrow> bytes \<Rightarrow> bytes \<Rightarrow> bytes"
  aes_decrypt :: "bytes \<Rightarrow> bytes \<Rightarrow> bytes \<Rightarrow> aead_failure + bytes"

definition aead_correct :: "aead \<Rightarrow> bool" where
  "aead_correct A \<longleftrightarrow>
    (\<forall>k n d. length k = 32 \<and> length n = 12 \<longrightarrow> aes_decrypt A k n (aes_encrypt A k n d) = Inr d)"

text \<open>
  A small cipher that meets the contract, used to run the model on concrete inputs: the
  tag is the first 16 bytes of the key, and the data is masked with the first nonce byte.
\<close>

definition demo_aead :: aead where
  "demo_aead =
    \<lparr> aes_encrypt = (\<lambda>k n d. map (\<lambda>b. b + hd n) d @ take 16 k),
      aes_decrypt = (\<lambda>k n d.
        if length n < 8 \<or> 128 < length n then Inl InvalidNonce
        else if length d < 16 then Inl InvalidTag
        else if drop (length d - 16) d = take 16 k
          then Inr (map (\<lambda>b. b - hd n) (take (length d - 16) d))
        else Inl InvalidTag) \<rparr>"

section \<open>crypto.py\<close>

definition KEY_SIZE :: nat where
  "KEY_SIZE = 32"

definition NONCE_SIZE :: nat where
  "NONCE_SIZE = 12"

definition generate_key :: "world \<Rightarrow> bytes \<times> world" where
  "generate_key w = os_urandom 32 w"

definition encrypt ::
  "aead \<Rightarrow> str \<Rightarrow> bytes \<Rightarrow> world \<Rightarrow> (error + blob) \<times> world" where
  "encrypt A plaintext key w =
    (if length key \<noteq> KEY_SIZE then (Inl KeyLengthError, w)
     else
       (case os_urandom NONCE_SIZE w of
          (nonce_bytes, w') \<Rightarrow>
            (case utf8_encode plaintext of
               None \<Rightarrow> (Inl UnicodeEncodeError, w')
             | Some data \<Rightarrow>
                 (Inr \<lparr> ciphertext = Some (b64encode (aes_encrypt A key nonce_bytes data)),
                        nonce = Some (b64encode nonce_bytes) \<rparr>, w'))))"

definition decrypt :: "aead \<Rightarrow> blob \<Rightarrow> bytes \<Rightarrow> error + str" where
  "decrypt A encrypted_data key =
    (if length key \<noteq> KEY_SIZE then Inl KeyLengthError
     else
       (case (ciphertext encrypted_data, nonce encrypted_data) of
          (Some c, Some n) \<Rightarrow>
            (case b64decode c of
               None \<Rightarrow> Inl MalformedBlobError
             | Some ciphertext_bytes \<Rightarrow>
                 (case b64decode n of
                    None \<Rightarrow> Inl MalformedBlobError
                  | Some nonce_bytes \<Rightarrow>
                      (case aes_decrypt A key nonce_bytes ciphertext_bytes of
                         Inl InvalidTag \<Rightarrow> Inl AuthenticationError
                       | Inl InvalidNonce \<Rightarrow> Inl NonceLengthError
                       | Inr plaintext_bytes \<Rightarrow>
                           (case utf8_decode plaintext_bytes of
                              None \<Rightarrow> Inl UnicodeDecodeError
                            | Some plaintext \<Rightarrow> Inr plaintext))))
        | _ \<Rightarrow> Inl MalformedBlobError))"

section \<open>versioning.py\<close>

text \<open>
  Methods of \<open>SecretVersion\<close> carry the prefix \<open>SecretVersion_\<close>; methods of
  \<open>VersionManager\<close> keep their names; methods of \<open>StorageBackend\<close> carry \<open>storage_\<close> and
  those of \<open>MobileSecretsVault\<close> carry \<open>vault_\<close>.
\<close>

record SecretVersion =
  version :: int
  encrypted_value :: blob
  timestamp :: str
  metadata :: metadata_dict

text \<open>
  \<open>SecretVersion.__init__\<close>: \<open>timestamp or utcnow()\<close> reads the clock only when the
  timestamp is \<open>None\<close> or empty; \<open>metadata or {}\<close> is the empty dictionary for \<open>None\<close>.
\<close>

definition SecretVersion_init ::
  "int \<Rightarrow> blob \<Rightarrow> str option \<Rightarrow> metadata_dict option \<Rightarrow> world \<Rightarrow> SecretVersion \<times> world" where
  "SecretVersion_init v ev ts md w =
    (case (case ts of None \<Rightarrow> utcnow w | Some t \<Rightarrow> if t = [] then utcnow w else (t, w)) of
       (t, w') \<Rightarrow>
         (\<lparr> version = v, encrypted_value = ev, timestamp = t,
             metadata = (case md of None \<Rightarrow> [] | Some m \<Rightarrow> m) \<rparr>, w'))"

definition SecretVersion_to_dict :: "SecretVersion \<Rightarrow> version_doc" where
  "SecretVersion_to_dict v =
    \<lparr> d_version = version v, d_encrypted_value = encrypted_value v,
      d_timestamp = Some (timestamp v), d_metadata = Some (metadata v) \<rparr>"

definition SecretVersion_from_dict :: "version_doc \<Rightarrow> world \<Rightarrow> SecretVersion \<times> world" where
  "SecretVersion_from_dict d w =
    SecretVersion_init (d_version d) (d_encrypted_value d) (d_timestamp d) (d_metadata d) w"

text \<open>
  \<open>VersionManager._secrets\<close> maps a key to \<open>{"versions": [...], "current_version": n}\<close>.
  It is an association list in insertion order: \<open>map_of\<close> looks a key up,
  \<open>AList.update\<close> assigns (a new key goes to the end, as in a Python dictionary) and
  \<open>AList.delete\<close> removes.
\<close>

record key_entry =
  versions :: "SecretVersion list"
  current_version :: int

type_synonym secrets = "(str \<times> key_entry) list"

definition add_version ::
  "str \<Rightarrow> blob \<Rightarrow> metadata_dict option \<Rightarrow> secrets \<Rightarrow> world \<Rightarrow> int \<times> secrets \<times> world" where
  "add_version key ev md s w =
    (let e = (case map_of s key of
                None \<Rightarrow> \<lparr> versions = [], current_version = 0 \<rparr>
              | Some e \<Rightarrow> e);
         next_version = current_version e + 1
     in case SecretVersion_init next_version ev None md w of
          (v, w') \<Rightarrow>
            (next_version,
             AList.update key \<lparr> versions = versions e @ [v], current_version = next_version \<rparr> s,
             w'))"

definition get_version :: "str \<Rightarrow> int option \<Rightarrow> secrets \<Rightarrow> SecretVersion option" where
  "get_version key ver s =
    (case map_of s key of
       None \<Rightarrow> None
     | Some e \<Rightarrow>
         if versions e = [] then None
         else (case ver of
                 None \<Rightarrow> Some (last (versions e))
               | Some n \<Rightarrow> find (\<lambda>v. version v = n) (versions e)))"

definition list_versions :: "str \<Rightarrow> secrets \<Rightarrow> (int \<times> str \<times> metadata_dict) list" where
  "list_versions key s =
    (case map_of s key of
       None \<Rightarrow> []
     | Some e \<Rightarrow> map (\<lambda>v. (version v, timestamp v, metadata v)) (versions e))"

definition delete_key :: "str \<Rightarrow> secrets \<Rightarrow> bool \<times> secrets" where
  "delete_key key s =
    (if map_of s key \<noteq> None then (True, AList.delete key s) else (False, s))"

definition delete_version :: "str \<Rightarrow> int \<Rightarrow> secrets \<Rightarrow> bool \<times> secrets" where
  "delete_version key ver s =
    (case map_of s key of
       None \<Rightarrow> (False, s)
     | Some e \<Rightarrow>
         (let kept = filter (\<lambda>v. version v \<noteq> ver) (versions e)
          in (length kept < length (versions e), AList.update key (e\<lparr>versions := kept\<rparr>) s)))"

definition get_all_keys :: "secrets \<Rightarrow> str list" where
  "get_all_keys s = map fst s"

text \<open>
  \<open>rotate_key\<close>: the body of the inner loop is \<open>rotate_version\<close>. The \<open>try\<close> covers the
  decryption and the encryption; the \<open>except\<close> prints a warning and the loop goes on
  with the next version, leaving this one as it was.
\<close>

definition rotate_version ::
  "aead \<Rightarrow> bytes \<Rightarrow> bytes \<Rightarrow> str \<Rightarrow> SecretVersion \<Rightarrow> world \<Rightarrow> SecretVersion \<times> world" where
  "rotate_version A old_key new_key key v w =
    (case decrypt A (encrypted_value v) old_key of
       Inl e \<Rightarrow> (v, print (RotateWarning key (version v) e) w)
     | Inr plaintext \<Rightarrow>
         (case encrypt A plaintext new_key w of
            (Inl e, w') \<Rightarrow> (v, print (RotateWarning key (version v) e) w')
          | (Inr new_encrypted, w') \<Rightarrow> (v\<lparr>encrypted_value := new_encrypted\<rparr>, w')))"

fun rotate_versions ::
  "aead \<Rightarrow> bytes \<Rightarrow> bytes \<Rightarrow> str \<Rightarrow> SecretVersion list \<Rightarrow> world \<Rightarrow> SecretVersion list \<times> world"
  where
  "rotate_versions A old_key new_key key [] w = ([], w)"
| "rotate_versions A old_key new_key key (v # vs) w =
    (case rotate_version A old_key new_key key v w of
       (v', w') \<Rightarrow>
         (case rotate_versions A old_key new_key key vs w' of
            (vs', w'') \<Rightarrow> (v' # vs', w'')))"

fun rotate_key :: "aead \<Rightarrow> bytes \<Rightarrow> bytes \<Rightarrow> secrets \<Rightarrow> world \<Rightarrow> secrets \<times> world" where
  "rotate_key A old_key new_key [] w = ([], w)"
| "rotate_key A old_key new_key ((key, e) # rest) w =
    (case rotate_versions A old_key new_key key (versions e) w of
       (vs', w') \<Rightarrow>
         (case rotate_key A old_key new_key rest w' of
            (rest', w'') \<Rightarrow> ((key, e\<lparr>versions := vs'\<rparr>) # rest', w'')))"

definition to_dict :: "secrets \<Rightarrow> document" where
  "to_dict s =
    map (\<lambda>(key, data).
          (key, \<lparr> d_versions = map SecretVersion_to_dict (versions data),
                  d_current_version = current_version data \<rparr>)) s"

fun from_dict_versions :: "version_doc list \<Rightarrow> world \<Rightarrow> SecretVersion list \<times> world" where
  "from_dict_versions [] w = ([], w)"
| "from_dict_versions (d # ds) w =
    (case SecretVersion_from_dict d w of
       (v, w') \<Rightarrow> (case from_dict_versions ds w' of (vs, w'') \<Rightarrow> (v # vs, w'')))"

fun from_dict_items :: "document \<Rightarrow> secrets \<Rightarrow> world \<Rightarrow> secrets \<times> world" where
  "from_dict_items [] s w = (s, w)"
| "from_dict_items ((key, key_data) # rest) s w =
    (case from_dict_versions (d_versions key_data) w of
       (vs, w') \<Rightarrow>
         from_dict_items rest
           (AList.update key
              \<lparr> versions = vs, current_version = d_current_version key_data \<rparr> s) w')"

definition from_dict :: "document \<Rightarrow> world \<Rightarrow> secrets \<times> world" where
  "from_dict data w = from_dict_items data [] w"

section \<open>storage.py and audit.py\<close>

text \<open>
  The vault file holds the document itself (YAML serialisation is not modelled). A save
  either succeeds as a whole, copying the previous file to the backup first, or fails
  with \<open>IOError\<close> and changes nothing.
\<close>

definition storage_load :: "world \<Rightarrow> error + document" where
  "storage_load w =
    (case secrets_file w of
       Missing \<Rightarrow> Inr []
     | Unreadable \<Rightarrow> Inl IoError
     | Stored data \<Rightarrow> Inr data)"

definition storage_save :: "document \<Rightarrow> world \<Rightarrow> error + world" where
  "storage_save data w =
    (if fs_writable w
     then Inr (w\<lparr> backup_file := (case secrets_file w of
                                     Missing \<Rightarrow> backup_file w
                                   | _ \<Rightarrow> secrets_file w),
                  secrets_file := Stored data \<rparr>)
     else Inl IoError)"

datatype Operation = GET | SET | DELETE | ROTATE | INIT | LIST_VERSIONS

datatype log_metadata = LogVersion int | LogSecretCount nat | LogVersionCount nat

record log_entry =
  log_timestamp :: str
  log_operation :: Operation
  log_key :: "str option"
  log_success :: bool
  log_error :: "error option"
  log_metadata :: "log_metadata list"

text \<open>\<open>AuditLogger.log\<close> with the in-memory list of entries; the log file is not modelled.\<close>

definition audit_log ::
  "Operation \<Rightarrow> str option \<Rightarrow> bool \<Rightarrow> error option \<Rightarrow> log_metadata list
    \<Rightarrow> log_entry list \<Rightarrow> world \<Rightarrow> log_entry list \<times> world" where
  "audit_log operation key success err md logs w =
    (case utcnow w of
       (t, w') \<Rightarrow>
         (logs @ [\<lparr> log_timestamp = t, log_operation = operation, log_key = key,
                    log_success = success, log_error = err, log_metadata = md \<rparr>], w'))"

section \<open>vault.py\<close>

record vault =
  master_key :: bytes
  auto_save :: bool
  version_manager :: secrets
  audit_logger :: "log_entry list"

definition load_secrets :: "world \<Rightarrow> secrets \<times> world" where
  "load_secrets w =
    (case storage_load w of
       Inl e \<Rightarrow> ([], print (LoadWarning e) w)
     | Inr data \<Rightarrow> if data = [] then ([], w) else from_dict data w)"

text \<open>
  The constructor, called with the master key as a parameter (the first source of
  \<open>_load_master_key\<close>; the environment variable and the key files are not modelled).
  The length of the key is not checked.
\<close>

definition vault_init :: "bytes \<Rightarrow> bool \<Rightarrow> world \<Rightarrow> vault \<times> world" where
  "vault_init key autosave w =
    (case load_secrets w of
       (s, w1) \<Rightarrow>
         (case audit_log INIT None True None [] [] w1 of
            (logs, w2) \<Rightarrow>
              (\<lparr> master_key = key, auto_save = autosave, version_manager = s,
                  audit_logger = logs \<rparr>, w2)))"

definition vault_save :: "vault \<Rightarrow> world \<Rightarrow> error + world" where
  "vault_save v w = storage_save (to_dict (version_manager v)) w"

text \<open>
  \<open>vault_fail\<close> is the handler \<open>except Exception as e\<close> of the public methods: it logs
  the failure and raises \<open>VaultError\<close> built from \<open>e\<close>.
\<close>

definition vault_fail ::
  "Operation \<Rightarrow> str option \<Rightarrow> error \<Rightarrow> vault \<Rightarrow> world \<Rightarrow> (error + 'a) \<times> vault \<times> world" where
  "vault_fail operation key e v w =
    (case audit_log operation key False (Some e) [] (audit_logger v) w of
       (logs, w') \<Rightarrow> (Inl (VaultError e), v\<lparr>audit_logger := logs\<rparr>, w'))"

definition vault_set ::
  "aead \<Rightarrow> str \<Rightarrow> str \<Rightarrow> metadata_dict option \<Rightarrow> vault \<Rightarrow> world
    \<Rightarrow> (error + int) \<times> vault \<times> world" where
  "vault_set A key val md v w =
    (case encrypt A val (master_key v) w of
       (Inl e, w1) \<Rightarrow> vault_fail SET (Some key) e v w1
     | (Inr encrypted, w1) \<Rightarrow>
         (case add_version key encrypted md (version_manager v) w1 of
            (n, s', w2) \<Rightarrow>
              (let v1 = v\<lparr>version_manager := s'\<rparr> in
               case (if auto_save v1 then vault_save v1 w2 else Inr w2) of
                 Inl e \<Rightarrow> vault_fail SET (Some key) e v1 w2
               | Inr w3 \<Rightarrow>
                   (case audit_log SET (Some key) True None [LogVersion n]
                           (audit_logger v1) w3 of
                      (logs, w4) \<Rightarrow> (Inr n, v1\<lparr>audit_logger := logs\<rparr>, w4)))))"

text \<open>
  \<open>get\<close>: \<open>SecretNotFoundError\<close> is re-raised as it is by its own handler; every other
  exception, the failure of the tag check included, reaches \<open>except Exception\<close>.
\<close>

definition vault_get ::
  "aead \<Rightarrow> str \<Rightarrow> int option \<Rightarrow> vault \<Rightarrow> world \<Rightarrow> (error + str) \<times> vault \<times> world" where
  "vault_get A key ver v w =
    (case get_version key ver (version_manager v) of
       None \<Rightarrow>
         (case audit_log GET (Some key) False (Some SecretNotFoundError) []
                 (audit_logger v) w of
            (logs, w') \<Rightarrow> (Inl SecretNotFoundError, v\<lparr>audit_logger := logs\<rparr>, w'))
     | Some secret_version \<Rightarrow>
         (case decrypt A (encrypted_value secret_version) (master_key v) of
            Inl e \<Rightarrow> vault_fail GET (Some key) e v w
          | Inr plaintext \<Rightarrow>
              (case audit_log GET (Some key) True None [LogVersion (version secret_version)]
                      (audit_logger v) w of
                 (logs, w') \<Rightarrow> (Inr plaintext, v\<lparr>audit_logger := logs\<rparr>, w'))))"

definition vault_delete :: "str \<Rightarrow> vault \<Rightarrow> world \<Rightarrow> (error + bool) \<times> vault \<times> world" where
  "vault_delete key v w =
    (case delete_key key (version_manager v) of
       (deleted, s') \<Rightarrow>
         (let v1 = v\<lparr>version_manager := s'\<rparr> in
          case (if deleted \<and> auto_save v1 then vault_save v1 w else Inr w) of
            Inl e \<Rightarrow> vault_fail DELETE (Some key) e v1 w
          | Inr w1 \<Rightarrow>
              (case audit_log DELETE (Some key) deleted None [] (audit_logger v1) w1 of
                 (logs, w2) \<Rightarrow> (Inr deleted, v1\<lparr>audit_logger := logs\<rparr>, w2))))"

text \<open>
  \<open>rotate\<close>: the master key is replaced after \<open>rotate_key\<close> returns and before the save.
  The result is \<open>new_key if new_key else None\<close>.
\<close>

definition vault_rotate ::
  "aead \<Rightarrow> bytes option \<Rightarrow> vault \<Rightarrow> world \<Rightarrow> (error + bytes option) \<times> vault \<times> world" where
  "vault_rotate A new_key v w =
    (case (case new_key of None \<Rightarrow> generate_key w | Some k \<Rightarrow> (k, w)) of
       (new_key', w1) \<Rightarrow>
         (case rotate_key A (master_key v) new_key' (version_manager v) w1 of
            (s', w2) \<Rightarrow>
              (let v1 = v\<lparr>version_manager := s', master_key := new_key'\<rparr> in
               case vault_save v1 w2 of
                 Inl e \<Rightarrow> vault_fail ROTATE None e v1 w2
               | Inr w3 \<Rightarrow>
                   (case audit_log ROTATE None True None
                           [LogSecretCount (length (get_all_keys s'))] (audit_logger v1) w3 of
                      (logs, w4) \<Rightarrow>
                        (Inr (if new_key' = [] then None else Some new_key'),
                         v1\<lparr>audit_logger := logs\<rparr>, w4)))))"

definition vault_list_versions ::
  "str \<Rightarrow> vault \<Rightarrow> world \<Rightarrow> (int \<times> str \<times> metadata_dict) list \<times> vault \<times> world" where
  "vault_list_versions key v w =
    (let vs = list_versions key (version_manager v) in
     case audit_log LIST_VERSIONS (Some key) True None [LogVersionCount (length vs)]
            (audit_logger v) w of
       (logs, w') \<Rightarrow> (vs, v\<lparr>audit_logger := logs\<rparr>, w'))"

definition vault_list_keys :: "vault \<Rightarrow> str list" where
  "vault_list_keys v = get_all_keys (version_manager v)"

section \<open>Histories of operations and well-formed documents\<close>

text \<open>
  A history of \<open>add_version\<close> and \<open>delete_version\<close> calls on a version manager.
  \<open>run_ops\<close> runs it and returns, with the final state, the version number that each
  \<open>add_version\<close> returned for its key.
\<close>

datatype vm_op = AddVersion str blob "metadata_dict option" | DeleteVersion str int

fun run_ops :: "vm_op list \<Rightarrow> secrets \<Rightarrow> world \<Rightarrow> (str \<times> int) list \<times> secrets \<times> world" where
  "run_ops [] s w = ([], s, w)"
| "run_ops (AddVersion key ev md # ops) s w =
    (case add_version key ev md s w of
       (n, s', w') \<Rightarrow>
         (case run_ops ops s' w' of (assigned, s'', w'') \<Rightarrow> ((key, n) # assigned, s'', w'')))"
| "run_ops (DeleteVersion key n # ops) s w =
    (case delete_version key n s of (deleted, s') \<Rightarrow> run_ops ops s' w)"

text \<open>The \<open>current_version\<close> of a key, \<open>None\<close> when the key has no entry.\<close>

definition current_version_of :: "secrets \<Rightarrow> str \<Rightarrow> int option" where
  "current_version_of s key = map_option current_version (map_of s key)"

text \<open>Every version number assigned so far is at most the key's \<open>current_version\<close>.\<close>

definition assigned_below :: "(str \<times> int) list \<Rightarrow> secrets \<Rightarrow> bool" where
  "assigned_below assigned s \<longleftrightarrow>
    (\<forall>k m. (k, m) \<in> set assigned \<longrightarrow> (\<exists>c. current_version_of s k = Some c \<and> m \<le> c))"

text \<open>
  What the round trip through \<open>from_dict\<close> and \<open>to_dict\<close> needs of a document: the keys
  are distinct, as in every dictionary, and every version has a non-empty timestamp and
  a metadata mapping. Every valid vault document of the specification is of this form
  (its timestamps are ISO-8601 text and its metadata are mappings); nothing is asked of
  \<open>current_version\<close> or of the order of the versions.
\<close>

definition well_formed_version :: "version_doc \<Rightarrow> bool" where
  "well_formed_version d \<longleftrightarrow>
    (case d_timestamp d of None \<Rightarrow> False | Some t \<Rightarrow> t \<noteq> []) \<and> d_metadata d \<noteq> None"

definition well_formed_document :: "document \<Rightarrow> bool" where
  "well_formed_document data \<longleftrightarrow>
    distinct (map fst data)
    \<and> (\<forall>key_data \<in> snd ` set data. \<forall>d \<in> set (d_versions key_data). well_formed_version d)"

section \<open>Rotation: the versions before and after\<close>

text \<open>
  \<open>skip_entropy n w\<close> is the operating system after \<open>n\<close> random bytes have been read.
  \<open>all_versions\<close> lists every stored version with its key, in the order in which
  \<open>rotate_key\<close> visits them.
\<close>

definition skip_entropy :: "nat \<Rightarrow> world \<Rightarrow> world" where
  "skip_entropy n w = w\<lparr>entropy := \<lambda>i. entropy w (i + n)\<rparr>"

definition all_versions :: "secrets \<Rightarrow> (str \<times> SecretVersion) list" where
  "all_versions s = concat (map (\<lambda>(key, e). map (Pair key) (versions e)) s)"

text \<open>Every stored version decrypts under the master key of the vault.\<close>

definition all_decrypt :: "aead \<Rightarrow> vault \<Rightarrow> bool" where
  "all_decrypt A v \<longleftrightarrow>
    (\<forall>x \<in> set (all_versions (version_manager v)).
       \<exists>p. decrypt A (encrypted_value (snd x)) (master_key v) = Inr p)"

text \<open>
  \<open>rotated A old_key new_key w sv sv'\<close>: the version \<open>sv'\<close> is \<open>sv\<close> re-encrypted in the
  state \<open>w\<close> of the operating system. Number, timestamp and metadata are those of \<open>sv\<close>;
  the blob of \<open>sv'\<close> is what \<open>encrypt\<close> returns in \<open>w\<close> for the plaintext of \<open>sv\<close> under
  the new key, so its nonce is the next 12 bytes of \<open>os.urandom\<close> and its ciphertext is
  computed under the new key with that nonce; and it decrypts to the same plaintext
  under the new key. \<open>rotated_entry\<close> lifts this to the entry of a key.
\<close>

definition rotated :: "aead \<Rightarrow> bytes \<Rightarrow> bytes \<Rightarrow> world \<Rightarrow> SecretVersion \<Rightarrow> SecretVersion \<Rightarrow> bool"
  where
  "rotated A old_key new_key w sv sv' \<longleftrightarrow>
    version sv' = version sv \<and> timestamp sv' = timestamp sv \<and> metadata sv' = metadata sv
    \<and> nonce (encrypted_value sv') = Some (b64encode (fst (os_urandom NONCE_SIZE w)))
    \<and> (\<exists>p. decrypt A (encrypted_value sv) old_key = Inr p
           \<and> fst (encrypt A p new_key w) = Inr (encrypted_value sv')
           \<and> decrypt A (encrypted_value sv') new_key = Inr p)"

definition rotated_entry :: "aead \<Rightarrow> bytes \<Rightarrow> bytes \<Rightarrow> str \<times> key_entry \<Rightarrow> str \<times> key_entry \<Rightarrow> bool"
  where
  "rotated_entry A old_key new_key x y \<longleftrightarrow>
    fst y = fst x \<and> current_version (snd y) = current_version (snd x)
    \<and> list_all2 (\<lambda>sv sv'. \<exists>w0. rotated A old_key new_key w0 sv sv')
         (versions (snd x)) (versions (snd y))"

section \<open>Concrete inputs and the specification's notion of base64 text\<close>

text \<open>A key, and a state of the operating system, for running the model.\<close>

definition demo_key :: bytes where
  "demo_key = [7, 14, 21, 28, 35, 42, 49, 56, 63, 70, 77, 84, 91, 98, 105, 112, 119, 126,
      133, 140, 147, 154, 161, 168, 175, 182, 189, 196, 203, 210, 217, 224]"

definition demo_world :: world where
  "demo_world =
    \<lparr> entropy = (\<lambda>i. byte_of (i + 1)),
      clock = (\<lambda>i. [50, 48, 50, 53, 45, 48 + i mod 10, 90]),
      stdout = [],
      secrets_file = Missing,
      backup_file = Missing,
      fs_writable = True \<rparr>"

text \<open>
  A second key, and stored values: \<open>hi_blob\<close> is the plaintext \<open>"hi"\<close> under
  \<open>demo_key\<close> and \<open>demo_aead\<close> with the nonce bytes 101 to 112, that is
  \<open>{"ciphertext": "zc4HDhUcIyoxOD9GTVRbYmlw", "nonce": "ZWZnaGlqa2xtbm9w"}\<close>.
\<close>

definition other_key :: bytes where
  "other_key = [6, 11, 16, 21, 26, 31, 36, 41, 46, 51, 56, 61, 66, 71, 76, 81, 86, 91, 96,
      101, 106, 111, 116, 121, 126, 131, 136, 141, 146, 151, 156, 161]"

definition blob_of :: "str \<Rightarrow> str \<Rightarrow> blob" where
  "blob_of c n = \<lparr> ciphertext = Some c, nonce = Some n \<rparr>"

definition hi_blob :: blob where
  "hi_blob =
    blob_of [122, 99, 52, 72, 68, 104, 85, 99, 73, 121, 111, 120, 79, 68, 57, 71, 84, 86,
        82, 98, 89, 109, 108, 119]
            [90, 87, 90, 110, 97, 71, 108, 113, 97, 50, 120, 116, 98, 109, 57, 119]"

text \<open>
  Scenario E6 of the specification on the key \<open>"P"\<close>: three versions, then version 2 is
  deleted.
\<close>

definition e6_ops :: "vm_op list" where
  "e6_ops =
    [AddVersion [80] (blob_of [118, 49] [65, 65, 65, 65]) None,
     AddVersion [80] (blob_of [118, 50] [65, 65, 65, 65]) None,
     AddVersion [80] (blob_of [118, 51] [65, 65, 65, 65]) None,
     DeleteVersion [80] 2]"

definition lone_version :: SecretVersion where
  "lone_version =
    \<lparr> version = 1, encrypted_value = blob_of [118, 49] [65, 65, 65, 65],
      timestamp = [50, 48, 50, 53, 90], metadata = [] \<rparr>"

text \<open>
  A document in which the key \<open>"P"\<close> has the versions 1 and 2 and the
  \<open>current_version\<close> 3 (version 3 was deleted).
\<close>

definition gap_document :: document where
  "gap_document =
    [([80],
      \<lparr> d_versions =
          [\<lparr> d_version = 1, d_encrypted_value = blob_of [118, 49] [65, 65, 65, 65],
             d_timestamp = Some [50, 48, 50, 52, 90], d_metadata = Some [] \<rparr>,
           \<lparr> d_version = 2, d_encrypted_value = blob_of [118, 50] [65, 65, 65, 65],
             d_timestamp = Some [50, 48, 50, 53, 90],
             d_metadata = Some [([115], JStr [116])] \<rparr>],
        d_current_version = 3 \<rparr>)]"

text \<open>
  A vault that holds \<open>"hi"\<close> under the key \<open>"T"\<close>, and the same vault opened with the
  wrong master key.
\<close>

definition stored_vault :: vault where
  "stored_vault =
    \<lparr> master_key = demo_key, auto_save = True,
      version_manager =
        [([84], \<lparr> versions = [\<lparr> version = 4, encrypted_value = hi_blob,
                                  timestamp = [50, 48, 50, 53, 90], metadata = [] \<rparr>],
                  current_version = 4 \<rparr>)],
      audit_logger = [] \<rparr>"

definition wrong_key_vault :: vault where
  "wrong_key_vault = stored_vault\<lparr>master_key := other_key\<rparr>"

text \<open>
  \<open>yo_blob\<close> is the plaintext \<open>"yo"\<close> under \<open>demo_key\<close>; \<open>tampered_blob\<close> is \<open>hi_blob\<close>
  with the last character of its ciphertext changed, so that its tag no longer
  verifies. \<open>two_vault\<close> holds \<open>"hi"\<close> and \<open>"yo"\<close> under the keys \<open>"s1"\<close> and \<open>"s2"\<close>; in
  \<open>broken_vault\<close> the blob of \<open>"s1"\<close> is the tampered one.
\<close>

definition yo_blob :: blob where
  "yo_blob =
    blob_of [51, 116, 81, 72, 68, 104, 85, 99, 73, 121, 111, 120, 79, 68, 57, 71, 84, 86, 82, 98,
             89, 109, 108, 119]
            [90, 87, 90, 110, 97, 71, 108, 113, 97, 50, 120, 116, 98, 109, 57, 119]"

definition tampered_blob :: blob where
  "tampered_blob =
    blob_of [122, 99, 52, 72, 68, 104, 85, 99, 73, 121, 111, 120, 79, 68, 57, 71, 84, 86, 82, 98,
             89, 109, 108, 120]
            [90, 87, 90, 110, 97, 71, 108, 113, 97, 50, 120, 116, 98, 109, 57, 119]"

definition two_vault :: vault where
  "two_vault =
    \<lparr> master_key = demo_key, auto_save = True,
      version_manager =
        [([115, 49], \<lparr> versions = [\<lparr> version = 1, encrypted_value = hi_blob,
                                       timestamp = [50, 48, 50, 53, 90], metadata = [] \<rparr>],
                       current_version = 1 \<rparr>),
         ([115, 50], \<lparr> versions = [\<lparr> version = 1, encrypted_value = yo_blob,
                                       timestamp = [50, 48, 50, 53, 90], metadata = [] \<rparr>],
                       current_version = 1 \<rparr>)],
      audit_logger = [] \<rparr>"

definition broken_vault :: vault where
  "broken_vault =
    \<lparr> master_key = demo_key, auto_save = True,
      version_manager =
        [([115, 49], \<lparr> versions = [\<lparr> version = 1, encrypted_value = tampered_blob,
                                       timestamp = [50, 48, 50, 53, 90], metadata = [] \<rparr>],
                       current_version = 1 \<rparr>),
         ([115, 50], \<lparr> versions = [\<lparr> version = 1, encrypted_value = yo_blob,
                                       timestamp = [50, 48, 50, 53, 90], metadata = [] \<rparr>],
                       current_version = 1 \<rparr>)],
      audit_logger = [] \<rparr>"

text \<open>
  Valid base64 text as the specification means it (RFC 4648): a multiple of four
  characters, all of the alphabet, closed by at most two pad characters.
\<close>

definition is_valid_base64 :: "str \<Rightarrow> bool" where
  "is_valid_base64 s \<longleftrightarrow>
    length s mod 4 = 0
    \<and> (\<forall>c \<in> set (takeWhile (\<lambda>c. c \<noteq> BASE64_PAD) s). table_a2b_base64 c \<noteq> None)
    \<and> (\<forall>c \<in> set (dropWhile (\<lambda>c. c \<noteq> BASE64_PAD) s). c = BASE64_PAD)
    \<and> length (dropWhile (\<lambda>c. c \<noteq> BASE64_PAD) s) \<le> 2"


section \<open>Properties of the codecs\<close>

lemma digits2: "q = a * 64 + b \<Longrightarrow> c = q * 64 + m \<Longrightarrow> a * 4096 + b * 64 + m = (c::nat)"
  by simp

lemma digits3:
  "r = a * 64 + b \<Longrightarrow> q = r * 64 + b' \<Longrightarrow> c = q * 64 + m
    \<Longrightarrow> a * 262144 + b * 4096 + b' * 64 + m = (c::nat)"
  by simp

lemma split_4096: "(c::nat) div 4096 * 4096 + c div 64 mod 64 * 64 + c mod 64 = c"
proof -
  have a: "c div 4096 = c div 64 div 64" by (simp add: div_mult2_eq)
  show ?thesis unfolding a
    by (rule digits2 [where q = "c div 64"]) simp_all
qed

lemma split_262144:
  "(c::nat) div 262144 * 262144 + c div 4096 mod 64 * 4096 + c div 64 mod 64 * 64 + c mod 64 = c"
proof -
  have a: "c div 262144 = c div 64 div 64 div 64" "c div 4096 = c div 64 div 64"
    by (simp_all add: div_mult2_eq)
  show ?thesis unfolding a
    by (rule digits3 [where q = "c div 64" and r = "c div 64 div 64"]) simp_all
qed

lemma unat_byte_of: "n < 256 \<Longrightarrow> unat (byte_of n) = n"
  by (simp add: byte_of_def unat_of_nat)

lemma unat_byte_lt: "unat (b :: byte) < 256"
  using unsigned_less [of b, where ?'a = nat] by simp

lemma unat_cont: "unat (byte_of (128 + x mod 64)) = 128 + x mod 64"
proof -
  have "x mod 64 < 64" by simp
  then have "128 + x mod 64 < 256" by linarith
  then show ?thesis by (rule unat_byte_of)
qed

lemma utf8_decode_encode_char:
  assumes "utf8_encode_char c = Some bs"
  shows "utf8_decode (bs @ rest) = map_option ((#) c) (utf8_decode rest)"
proof -
  consider (one) "c < 0x80" | (two) "0x80 \<le> c" "c < 0x800"
    | (three) "0x800 \<le> c" "c < 0x10000" "\<not> (0xD800 \<le> c \<and> c \<le> 0xDFFF)"
    | (four) "0x10000 \<le> c" "c < 0x110000"
    using assms by (auto simp: utf8_encode_char_def split: if_splits)
  then show ?thesis
  proof cases
    case one
    then have "bs = [byte_of c]" using assms by (simp add: utf8_encode_char_def)
    then show ?thesis using one by (simp add: utf8_decode_char_def unat_byte_of)
  next
    case two
    then have bs: "bs = [byte_of (0xC0 + c div 64), byte_of (0x80 + c mod 64)]"
      using assms by (auto simp: utf8_encode_char_def split: if_splits)
    have c: "2 \<le> c div 64" "c div 64 < 32"
      using two by (simp_all add: less_mult_imp_div_less less_eq_div_iff_mult_less_eq)
    have a: "unat (byte_of (0xC0 + c div 64)) = 0xC0 + c div 64"
      using c by (intro unat_byte_of) simp
    have d: "c div 64 * 64 + c mod 64 = c" by simp
    show ?thesis unfolding bs
      using c d by (simp add: utf8_decode_char_def is_continuation_def a unat_cont Let_def)
  next
    case three
    then have bs: "bs = [byte_of (0xE0 + c div 4096), byte_of (0x80 + c div 64 mod 64),
             byte_of (0x80 + c mod 64)]"
      using assms by (auto simp: utf8_encode_char_def split: if_splits)
    have c: "c div 4096 < 16" using three by (simp add: less_mult_imp_div_less)
    have a: "unat (byte_of (0xE0 + c div 4096)) = 0xE0 + c div 4096"
      using c by (intro unat_byte_of) simp
    show ?thesis unfolding bs
      using c three
      by (simp add: utf8_decode_char_def is_continuation_def a unat_cont Let_def split_4096)
  next
    case four
    then have bs: "bs = [byte_of (0xF0 + c div 262144), byte_of (0x80 + c div 4096 mod 64),
             byte_of (0x80 + c div 64 mod 64), byte_of (0x80 + c mod 64)]"
      using assms by (auto simp: utf8_encode_char_def split: if_splits)
    have c: "c div 262144 < 5" using four by (simp add: less_mult_imp_div_less)
    have a: "unat (byte_of (0xF0 + c div 262144)) = 0xF0 + c div 262144"
      using c by (intro unat_byte_of) simp
    show ?thesis unfolding bs
      using c four
      by (simp add: utf8_decode_char_def is_continuation_def a unat_cont Let_def split_262144)
  qed
qed

lemma utf8_decode_encode: "utf8_encode s = Some bs \<Longrightarrow> utf8_decode bs = Some s"
proof (induction s arbitrary: bs)
  case Nil
  then show ?case by simp
next
  case (Cons c cs)
  then obtain b1 rest where e: "utf8_encode_char c = Some b1" "utf8_encode cs = Some rest"
      "bs = b1 @ rest"
    by (auto split: option.splits)
  with Cons.IH [of rest] show ?case
    by (simp add: utf8_decode_encode_char)
qed

lemma byte_of_unat: "byte_of (unat a) = a"
  by (simp add: byte_of_def)

lemma table_a2b_b2a: "i < 64 \<Longrightarrow> table_a2b_base64 (table_b2a_base64 i) = Some i"
  by (auto simp: table_a2b_base64_def table_b2a_base64_def)

lemma table_b2a_not_pad: "table_b2a_base64 i \<noteq> BASE64_PAD"
  by (auto simp: table_b2a_base64_def BASE64_PAD_def)

lemma table_b2a_ascii: "table_b2a_base64 i < 128"
  by (auto simp: table_b2a_base64_def)

lemma a2b_valid_char:
  "v < 64 \<Longrightarrow> a2b_base64 (table_b2a_base64 v # cs) q l p =
     (if q = 0 then a2b_base64 cs 1 v 0
      else if q = 1 then
        map_option ((#) (byte_of (l * 4 + v div 16))) (a2b_base64 cs 2 (v mod 16) 0)
      else if q = 2 then
        map_option ((#) (byte_of (l * 16 + v div 4))) (a2b_base64 cs 3 (v mod 4) 0)
      else
        map_option ((#) (byte_of (l * 64 + v))) (a2b_base64 cs 0 0 0))"
  by (simp add: table_a2b_b2a table_b2a_not_pad)

lemma a2b_pad:
  "a2b_base64 (BASE64_PAD # cs) q l p =
     (if 2 \<le> q \<and> 4 \<le> q + (p + 1) then Some []
      else a2b_base64 cs q l (if 2 \<le> q then p + 1 else p))"
  by simp

lemmas a2b_step = a2b_valid_char a2b_pad

lemma a2b_quad:
  assumes "s1 < 64" "s2 < 64" "s3 < 64" "s4 < 64"
  shows "a2b_base64 (table_b2a_base64 s1 # table_b2a_base64 s2 # table_b2a_base64 s3
            # table_b2a_base64 s4 # rest) 0 0 0 =
         map_option (\<lambda>r. byte_of (s1 * 4 + s2 div 16) # byte_of (s2 mod 16 * 16 + s3 div 4)
            # byte_of (s3 mod 4 * 64 + s4) # r) (a2b_base64 rest 0 0 0)"
  by (simp add: a2b_step assms option.map_comp o_def del: a2b_base64.simps(2))

lemma a2b_triple:
  assumes "s1 < 64" "s2 < 64" "s3 < 64"
  shows "a2b_base64 [table_b2a_base64 s1, table_b2a_base64 s2, table_b2a_base64 s3,
            BASE64_PAD] 0 0 0 =
         Some [byte_of (s1 * 4 + s2 div 16), byte_of (s2 mod 16 * 16 + s3 div 4)]"
  by (simp add: a2b_step assms del: a2b_base64.simps(2))

lemma a2b_pair:
  assumes "s1 < 64" "s2 < 64"
  shows "a2b_base64 [table_b2a_base64 s1, table_b2a_base64 s2, BASE64_PAD, BASE64_PAD] 0 0 0 =
         Some [byte_of (s1 * 4 + s2 div 16)]"
  by (simp add: a2b_step assms del: a2b_base64.simps(2))

lemma sextets:
  fixes a b c :: byte
  shows "unat a div 4 < 64" "unat a mod 4 * 16 + unat b div 16 < 64"
    "unat b mod 16 * 4 + unat c div 64 < 64" "unat c mod 64 < 64"
    "unat a mod 4 * 16 < 64" "unat b mod 16 * 4 < 64"
    "byte_of (unat a div 4 * 4 + (unat a mod 4 * 16 + unat b div 16) div 16) = a"
    "byte_of ((unat a mod 4 * 16 + unat b div 16) mod 16 * 16
        + (unat b mod 16 * 4 + unat c div 64) div 4) = b"
    "byte_of ((unat b mod 16 * 4 + unat c div 64) mod 4 * 64 + unat c mod 64) = c"
    "byte_of ((unat a mod 4 * 16 + unat b div 16) mod 16 * 16 + (unat b mod 16 * 4) div 4) = b"
    "byte_of (unat a div 4 * 4 + (unat a mod 4 * 16) div 16) = a"
proof -
  define x y z where "x = unat a" and "y = unat b" and "z = unat c"
  have lt: "x < 256" "y < 256" "z < 256"
    by (simp_all add: x_def y_def z_def unat_byte_lt)
  have y16: "y div 16 < 16" and z64: "z div 64 < 4" and x4: "x div 4 < 64"
    using lt by (simp_all add: less_mult_imp_div_less)
  have xm: "x mod 4 < 4" and ym: "y mod 16 < 16" by simp_all
  show "unat a div 4 < 64" using x4 by (simp add: x_def)
  show "unat a mod 4 * 16 + unat b div 16 < 64" using xm y16 unfolding x_def y_def by linarith
  show "unat b mod 16 * 4 + unat c div 64 < 64" using ym z64 unfolding y_def z_def by linarith
  show "unat c mod 64 < 64" by simp
  show "unat a mod 4 * 16 < 64" using xm unfolding x_def by linarith
  show "unat b mod 16 * 4 < 64" using ym unfolding y_def by linarith
  have a: "(x mod 4 * 16 + y div 16) div 16 = x mod 4" using y16 by simp
  have b: "(x mod 4 * 16 + y div 16) mod 16 = y div 16" using y16 by simp
  have c: "(y mod 16 * 4 + z div 64) div 4 = y mod 16" using z64 by simp
  have d: "(y mod 16 * 4 + z div 64) mod 4 = z div 64" using z64 by simp
  have "x div 4 * 4 + (x mod 4 * 16 + y div 16) div 16 = x" unfolding a by simp
  then show "byte_of (unat a div 4 * 4 + (unat a mod 4 * 16 + unat b div 16) div 16) = a"
    unfolding x_def y_def by (simp only: byte_of_unat)
  have "(x mod 4 * 16 + y div 16) mod 16 * 16 + (y mod 16 * 4 + z div 64) div 4 = y"
    unfolding b c by simp
  then show "byte_of ((unat a mod 4 * 16 + unat b div 16) mod 16 * 16
        + (unat b mod 16 * 4 + unat c div 64) div 4) = b"
    unfolding x_def y_def z_def by (simp only: byte_of_unat)
  have "(y mod 16 * 4 + z div 64) mod 4 * 64 + z mod 64 = z" unfolding d by simp
  then show "byte_of ((unat b mod 16 * 4 + unat c div 64) mod 4 * 64 + unat c mod 64) = c"
    unfolding y_def z_def by (simp only: byte_of_unat)
  have "(x mod 4 * 16 + y div 16) mod 16 * 16 + (y mod 16 * 4) div 4 = y" unfolding b by simp
  then show "byte_of ((unat a mod 4 * 16 + unat b div 16) mod 16 * 16 + (unat b mod 16 * 4) div 4) = b"
    unfolding x_def y_def by (simp only: byte_of_unat)
  have "x div 4 * 4 + (x mod 4 * 16) div 16 = x" by simp
  then show "byte_of (unat a div 4 * 4 + (unat a mod 4 * 16) div 16) = a"
    unfolding x_def by (simp only: byte_of_unat)
qed

lemma a2b_b64encode: "a2b_base64 (b64encode bs) 0 0 0 = Some bs"
proof (induction bs rule: b64encode.induct)
  case 1
  show ?case by simp
next
  case (2 a)
  note s = sextets
  show ?case
    by (simp only: b64encode.simps a2b_pair [OF s(1) s(5)] s(11))
next
  case (3 a b)
  note s = sextets
  show ?case
    by (simp only: b64encode.simps a2b_triple [OF s(1) s(2) s(6)] s(7) s(10))
next
  case (4 a b c rest)
  note s = sextets
  show ?case
    by (simp only: b64encode.simps append_Cons append_Nil a2b_quad [OF s(1-4)] s(7-9) 4
          option.map)
qed

lemma b64encode_ascii: "c \<in> set (b64encode bs) \<Longrightarrow> c < 128"
  by (induction bs rule: b64encode.induct) (auto simp: table_b2a_ascii BASE64_PAD_def)

lemma b64decode_b64encode: "b64decode (b64encode bs) = Some bs"
proof -
  have "\<not> (\<exists>c \<in> set (b64encode bs). 128 \<le> c)"
    using b64encode_ascii [of _ bs] by (fastforce simp: not_le)
  then show ?thesis by (simp add: b64decode_def a2b_b64encode)
qed

section \<open>Properties of crypto.py\<close>

lemma demo_aead_correct: "aead_correct demo_aead"
  by (simp add: aead_correct_def demo_aead_def o_def)

lemma length_os_urandom: "length (fst (os_urandom n w)) = n"
  by (simp add: os_urandom_def)

lemma decrypt_fresh_blob:
  assumes "aead_correct A" "length key = 32" "length n = 12" "utf8_encode v = Some d"
  shows "decrypt A \<lparr>ciphertext = Some (b64encode (aes_encrypt A key n d)),
                     nonce = Some (b64encode n)\<rparr> key = Inr v"
  using assms
  by (simp add: decrypt_def KEY_SIZE_def b64decode_b64encode aead_correct_def utf8_decode_encode)

text \<open>
  Claim C8, as amended. For every plaintext that UTF-8 can encode and every 32-byte key,
  \<open>encrypt\<close> returns a blob and \<open>decrypt\<close> of that blob under the same key returns the
  plaintext, whatever nonce the operating system supplies. The cipher is assumed to
  meet its contract.
\<close>

theorem encrypt_decrypt_roundtrip:
  assumes "aead_correct A" and "length key = 32" and "utf8_encode v \<noteq> None"
  shows "\<exists>b w'. encrypt A v key w = (Inr b, w') \<and> decrypt A b key = Inr v"
proof -
  from assms(3) obtain d where d: "utf8_encode v = Some d" by auto
  obtain n w' where n: "os_urandom NONCE_SIZE w = (n, w')" by (cases "os_urandom NONCE_SIZE w")
  then have len: "length n = 12"
    using length_os_urandom [of NONCE_SIZE w] by (simp add: NONCE_SIZE_def)
  have "encrypt A v key w =
      (Inr \<lparr>ciphertext = Some (b64encode (aes_encrypt A key n d)), nonce = Some (b64encode n)\<rparr>, w')"
    using assms(2) d n by (simp add: encrypt_def KEY_SIZE_def)
  with decrypt_fresh_blob [OF assms(1,2) len d] show ?thesis by simp
qed

text \<open>The theorem at the plaintext \<open>"hi"\<close>.\<close>

theorem encrypt_decrypt_roundtrip_witness:
  "aead_correct demo_aead \<and> length demo_key = 32 \<and> utf8_encode [104, 105] \<noteq> None
   \<and> (\<exists>b w'. encrypt demo_aead [104, 105] demo_key demo_world = (Inr b, w')
        \<and> decrypt demo_aead b demo_key = Inr [104, 105])"
proof -
  have k: "length demo_key = 32" by (simp add: demo_key_def)
  have v: "utf8_encode [104, 105] \<noteq> None" by (simp add: utf8_encode_char_def)
  show ?thesis
    using encrypt_decrypt_roundtrip [OF demo_aead_correct k v, of demo_world] demo_aead_correct k v
    by simp
qed

text \<open>
  Claim C8 as stated fails: the plaintext \<open>"\udcff"\<close>, a \<open>str\<close> holding a lone
  surrogate, makes \<open>encrypt\<close> raise \<open>UnicodeEncodeError\<close> under a 32-byte key.
\<close>

theorem encrypt_surrogate_counterexample:
  "fst (encrypt demo_aead [0xDCFF] demo_key demo_world) = Inl UnicodeEncodeError"
  by (simp add: encrypt_def demo_key_def KEY_SIZE_def os_urandom_def utf8_encode_char_def
      split: prod.splits)

text \<open>
  Claim C9, as amended. \<open>decrypt\<close> fails with the key-length error for every key that is
  not 32 bytes long. With a 32-byte key it fails with the malformed-blob error for every
  blob in which the ciphertext or the nonce is missing, and for every blob in which a
  field is present but \<open>b64decode\<close> rejects it.
\<close>

theorem decrypt_error_kinds:
  "(length key \<noteq> 32 \<longrightarrow> decrypt A b key = Inl KeyLengthError)
   \<and> (length key = 32 \<and> (ciphertext b = None \<or> nonce b = None)
        \<longrightarrow> decrypt A b key = Inl MalformedBlobError)
   \<and> (length key = 32 \<and> ciphertext b = Some c \<and> nonce b = Some n
        \<and> (b64decode c = None \<or> b64decode n = None)
        \<longrightarrow> decrypt A b key = Inl MalformedBlobError)"
  by (auto simp: decrypt_def KEY_SIZE_def split: option.splits)

text \<open>
  What \<open>b64decode\<close> rejects: text with a non-ASCII character, and text without pad
  characters in which the number of alphabet characters is not a multiple of four.
\<close>

lemma a2b_base64_no_pad:
  assumes "BASE64_PAD \<notin> set s" and "q < 4"
  shows "(a2b_base64 s q l p = None)
    = ((q + length (filter (\<lambda>c. table_a2b_base64 c \<noteq> None) s)) mod 4 \<noteq> 0)"
  using assms
proof (induction s arbitrary: q l p)
  case Nil
  then show ?case by simp
next
  case (Cons c s)
  then have c: "c \<noteq> BASE64_PAD" and s: "BASE64_PAD \<notin> set s" by auto
  show ?case
  proof (cases "table_a2b_base64 c")
    case None
    then show ?thesis using c Cons.IH [OF s Cons.prems(2)] by simp
  next
    case (Some v)
    consider "q = 0" | "q = 1" | "q = 2" | "q = 3" using Cons.prems(2) by linarith
    then show ?thesis
    proof cases
      case 1
      then show ?thesis using c Some Cons.IH [OF s, of 1 v 0] by simp
    next
      case 2
      then show ?thesis using c Some Cons.IH [OF s, of 2 "v mod 16" 0] by simp
    next
      case 3
      then show ?thesis using c Some Cons.IH [OF s, of 3 "v mod 4" 0] by simp
    next
      case 4
      then show ?thesis using c Some Cons.IH [OF s, of 0 0 0] by simp
    qed
  qed
qed

lemma b64decode_rejects:
  "(\<exists>x \<in> set s. 128 \<le> x) \<Longrightarrow> b64decode s = None"
  "BASE64_PAD \<notin> set s \<Longrightarrow>
     length (filter (\<lambda>c. table_a2b_base64 c \<noteq> None) s) mod 4 \<noteq> 0 \<Longrightarrow> b64decode s = None"
  using a2b_base64_no_pad [of s 0 0 0] by (auto simp: b64decode_def)

text \<open>
  The theorem at a one-byte key, at a blob without nonce, and at the ciphertext
  \<open>"abc"\<close>, which \<open>b64decode\<close> rejects.
\<close>

theorem decrypt_error_kinds_witness:
  "length [1 :: byte] \<noteq> 32 \<and> decrypt demo_aead \<lparr>ciphertext = None, nonce = None\<rparr> [1] = Inl KeyLengthError
   \<and> length demo_key = 32
   \<and> decrypt demo_aead \<lparr>ciphertext = Some [65, 65, 65, 65], nonce = None\<rparr> demo_key
        = Inl MalformedBlobError
   \<and> b64decode [97, 98, 99] = None
   \<and> decrypt demo_aead \<lparr>ciphertext = Some [97, 98, 99], nonce = Some [65, 65, 65, 65]\<rparr> demo_key
        = Inl MalformedBlobError"
proof -
  have k: "length demo_key = 32" by (simp add: demo_key_def)
  have d: "b64decode [97, 98, 99] = None"
    by (simp add: b64decode_def table_a2b_base64_def BASE64_PAD_def)
  show ?thesis
    using decrypt_error_kinds [where key = "[1]" and A = demo_aead
          and b = "\<lparr>ciphertext = None, nonce = None\<rparr>"]
      decrypt_error_kinds [where key = demo_key and A = demo_aead
          and b = "\<lparr>ciphertext = Some [65, 65, 65, 65], nonce = None\<rparr>"]
      decrypt_error_kinds [where key = demo_key and A = demo_aead
          and b = "\<lparr>ciphertext = Some [97, 98, 99], nonce = Some [65, 65, 65, 65]\<rparr>"
          and c = "[97, 98, 99]" and n = "[65, 65, 65, 65]"]
      k d
    by simp
qed

text \<open>
  Claim C9 as stated fails: the ciphertext \<open>"!aWoHDhUcIyoxOD9GTVRbYmlw"\<close> is not valid
  base64 text, yet \<open>b64decode\<close> skips the \<open>!\<close> and \<open>decrypt\<close> returns the plaintext
  \<open>"hi"\<close> instead of failing.
\<close>

lemma b64decode_skips_junk:
  "b64decode [33, 97, 87, 111, 72, 68, 104, 85, 99, 73, 121, 111, 120, 79, 68, 57, 71, 84,
      86, 82, 98, 89, 109, 108, 119]
    = Some [105, 106, 7, 14, 21, 28, 35, 42, 49, 56, 63, 70, 77, 84, 91, 98, 105, 112]"
  by (simp add: b64decode_def table_a2b_base64_def BASE64_PAD_def byte_of_def)

theorem decrypt_invalid_base64_counterexample:
  "\<not> is_valid_base64 [33, 97, 87, 111, 72, 68, 104, 85, 99, 73, 121, 111, 120, 79, 68,
      57, 71, 84, 86, 82, 98, 89, 109, 108, 119]
   \<and> decrypt demo_aead
        \<lparr> ciphertext = Some [33, 97, 87, 111, 72, 68, 104, 85, 99, 73, 121, 111, 120,
            79, 68, 57, 71, 84, 86, 82, 98, 89, 109, 108, 119],
          nonce = Some [65, 81, 73, 68, 66, 65, 85, 71, 66, 119, 103, 74, 67, 103, 115, 77]
              \<rparr>
        demo_key = Inr [104, 105]"
proof
  show "\<not> is_valid_base64 [33, 97, 87, 111, 72, 68, 104, 85, 99, 73, 121, 111, 120, 79,
      68, 57, 71, 84, 86, 82, 98, 89, 109, 108, 119]"
    by (simp add: is_valid_base64_def)
  have n: "b64decode [65, 81, 73, 68, 66, 65, 85, 71, 66, 119, 103, 74, 67, 103, 115, 77]
      = Some [1, 2, 3, 4, 5, 6, 7, 8, 9, 10, 11, 12]"
    by (simp add: b64decode_def table_a2b_base64_def BASE64_PAD_def byte_of_def)
  show "decrypt demo_aead
        \<lparr> ciphertext = Some [33, 97, 87, 111, 72, 68, 104, 85, 99, 73, 121, 111, 120,
            79, 68, 57, 71, 84, 86, 82, 98, 89, 109, 108, 119],
          nonce = Some [65, 81, 73, 68, 66, 65, 85, 71, 66, 119, 103, 74, 67, 103, 115, 77]
              \<rparr>
        demo_key = Inr [104, 105]"
    by (simp add: decrypt_def KEY_SIZE_def b64decode_skips_junk n) (simp add: demo_key_def demo_aead_def utf8_decode_char_def)
qed

section \<open>Properties of versioning.py\<close>

lemma map_of_delete_version:
  "map_of (snd (delete_version k n s)) =
    (case map_of s k of
       None \<Rightarrow> map_of s
     | Some e \<Rightarrow> (map_of s)(k \<mapsto> e\<lparr>versions := filter (\<lambda>v. version v \<noteq> n) (versions e)\<rparr>))"
  by (simp add: delete_version_def Let_def update_conv' split: option.splits)

lemma current_version_delete_version:
  "current_version_of (snd (delete_version k n s)) k' = current_version_of s k'"
  by (auto simp: current_version_of_def map_of_delete_version split: option.splits)

lemma fst_add_version:
  "fst (add_version k ev md s w) = (case current_version_of s k of None \<Rightarrow> 1 | Some c \<Rightarrow> c + 1)"
  by (simp add: add_version_def Let_def current_version_of_def split: option.splits prod.splits)

lemma current_version_add_version:
  "current_version_of (fst (snd (add_version k ev md s w))) k' =
     (if k' = k then Some (fst (add_version k ev md s w)) else current_version_of s k')"
  by (simp add: add_version_def Let_def current_version_of_def update_conv'
      split: option.splits prod.splits)

lemma run_ops_assigned_below:
  "assigned_below prev s \<Longrightarrow>
   assigned_below (prev @ fst (run_ops ops s w)) (fst (snd (run_ops ops s w)))"
proof (induction ops arbitrary: prev s w)
  case Nil
  then show ?case by simp
next
  case (Cons op ops)
  show ?case
  proof (cases op)
    case (AddVersion k ev md)
    obtain n s' w' where a: "add_version k ev md s w = (n, s', w')"
      by (cases "add_version k ev md s w")
    have n: "n = (case current_version_of s k of None \<Rightarrow> 1 | Some c \<Rightarrow> c + 1)"
      using fst_add_version [of k ev md s w] a by simp
    have cv: "\<And>k'. current_version_of s' k' = (if k' = k then Some n else current_version_of s k')"
      using current_version_add_version [of k ev md s w] a by simp
    have "assigned_below (prev @ [(k, n)]) s'"
      using Cons.prems unfolding assigned_below_def
      by (fastforce simp: cv n split: option.splits)
    from Cons.IH [OF this, of w'] show ?thesis
      using AddVersion a by (auto split: prod.splits)
  next
    case (DeleteVersion k n)
    have "assigned_below prev (snd (delete_version k n s))"
      using Cons.prems unfolding assigned_below_def
      by (simp add: current_version_delete_version)
    from Cons.IH [OF this, of w] show ?thesis
      using DeleteVersion by (auto split: prod.splits)
  qed
qed

text \<open>
  Claim C6. \<open>delete_version\<close> leaves the \<open>current_version\<close> of every key as it was, so
  it never decreases. After any history of \<open>add_version\<close> and \<open>delete_version\<close> calls
  on an empty version manager, the next \<open>add_version\<close> for a key returns a number
  strictly greater than every number returned for that key before.
\<close>

theorem version_numbers_never_reused:
  "current_version_of (snd (delete_version key' n s)) key = current_version_of s key
   \<and> (\<forall>(k, m) \<in> set (fst (run_ops ops [] w)).
        k = key \<longrightarrow> m < fst (add_version key ev md (fst (snd (run_ops ops [] w))) w2))"
proof
  show "current_version_of (snd (delete_version key' n s)) key = current_version_of s key"
    by (rule current_version_delete_version)
  have "assigned_below ([] @ fst (run_ops ops [] w)) (fst (snd (run_ops ops [] w)))"
    by (rule run_ops_assigned_below) (simp add: assigned_below_def)
  then show "\<forall>(k, m) \<in> set (fst (run_ops ops [] w)).
        k = key \<longrightarrow> m < fst (add_version key ev md (fst (snd (run_ops ops [] w))) w2)"
    by (fastforce simp: assigned_below_def fst_add_version)
qed

lemma e6_run:
  "fst (run_ops e6_ops [] demo_world) = [([80], 1), ([80], 2), ([80], 3)]"
  "map_option (\<lambda>e. (map version (versions e), current_version e))
      (map_of (fst (snd (run_ops e6_ops [] demo_world))) [80]) = Some ([1, 3], 3)"
  by (simp_all add: e6_ops_def add_version_def delete_version_def SecretVersion_init_def
      utcnow_def Let_def)

text \<open>
  Scenario E6: after the versions 1, 2 and 3 and the deletion of version 2, the next
  version is 4.
\<close>

theorem version_numbers_never_reused_witness:
  "([80], 3) \<in> set (fst (run_ops e6_ops [] demo_world))
   \<and> 3 < fst (add_version [80] (blob_of [118, 52] [65, 65, 65, 65]) None
              (fst (snd (run_ops e6_ops [] demo_world))) demo_world)
   \<and> fst (add_version [80] (blob_of [118, 52] [65, 65, 65, 65]) None
              (fst (snd (run_ops e6_ops [] demo_world))) demo_world) = 4"
proof -
  have m: "([80], 3) \<in> set (fst (run_ops e6_ops [] demo_world))"
    by (simp add: e6_run)
  have "fst (add_version [80] (blob_of [118, 52] [65, 65, 65, 65]) None
              (fst (snd (run_ops e6_ops [] demo_world))) demo_world) = 4"
    using e6_run(2) by (auto simp: fst_add_version current_version_of_def)
  moreover have "3 < fst (add_version [80] (blob_of [118, 52] [65, 65, 65, 65]) None
              (fst (snd (run_ops e6_ops [] demo_world))) demo_world)"
    using version_numbers_never_reused [where ops = e6_ops and w = demo_world and key = "[80]"
        and ev = "blob_of [118, 52] [65, 65, 65, 65]" and md = None and ?w2.0 = demo_world] m
    by fastforce
  ultimately show ?thesis using m by simp
qed

text \<open>
  Claim C5, as amended. When the versions list of a key holds exactly one version, with
  number \<open>n\<close>, \<open>delete_version\<close> of \<open>n\<close> returns \<open>True\<close> and empties the list, but the
  entry of the key stays in the document with its \<open>current_version\<close>: the key is still
  among \<open>get_all_keys\<close>, and \<open>get_version\<close> finds nothing for it.
\<close>

theorem delete_version_keeps_empty_key:
  assumes "map_of s key = Some e" and "versions e = [v]" and "version v = n"
  shows "delete_version key n s = (True, AList.update key (e\<lparr>versions := []\<rparr>) s)
    \<and> get_all_keys (snd (delete_version key n s)) = get_all_keys s
    \<and> key \<in> set (get_all_keys (snd (delete_version key n s)))
    \<and> map_of (snd (delete_version key n s)) key = Some (e\<lparr>versions := []\<rparr>)
    \<and> get_version key ver (snd (delete_version key n s)) = None"
proof -
  have d: "delete_version key n s = (True, AList.update key (e\<lparr>versions := []\<rparr>) s)"
    using assms by (simp add: delete_version_def)
  have k: "key \<in> fst ` set s" using assms(1) by (metis map_of_eq_None_iff option.distinct(1))
  then have keys: "map fst (AList.update key (e\<lparr>versions := []\<rparr>) s) = map fst s"
    by (simp add: update_keys)
  show ?thesis
    using k by (simp add: d get_all_keys_def keys update_conv' get_version_def)
qed

text \<open>The theorem at the key \<open>"P"\<close> with its only version 1.\<close>

theorem delete_version_keeps_empty_key_witness:
  "map_of [([80], \<lparr>versions = [lone_version], current_version = 1\<rparr>)] [80]
      = Some \<lparr>versions = [lone_version], current_version = 1\<rparr>
   \<and> versions \<lparr>versions = [lone_version], current_version = 1\<rparr> = [lone_version]
   \<and> version lone_version = 1
   \<and> delete_version [80] 1 [([80], \<lparr>versions = [lone_version], current_version = 1\<rparr>)]
      = (True, [([80], \<lparr>versions = [], current_version = 1\<rparr>)])"
proof -
  have a: "map_of [([80::nat], \<lparr>versions = [lone_version], current_version = 1\<rparr>)] [80]
      = Some \<lparr>versions = [lone_version], current_version = 1\<rparr>" by simp
  have b: "versions \<lparr>versions = [lone_version], current_version = 1\<rparr> = [lone_version]" by simp
  have c: "version lone_version = 1" by (simp add: lone_version_def)
  show ?thesis
    using delete_version_keeps_empty_key [OF a b c] a b c by simp
qed

text \<open>
  Claim C5 as stated fails: after version 1, the only one of \<open>"P"\<close>, is deleted,
  \<open>"P"\<close> is still among the keys and its versions list is empty.
\<close>

theorem delete_version_counterexample:
  "[80] \<in> set (get_all_keys (snd (delete_version [80] 1
        [([80], \<lparr>versions = [lone_version], current_version = 1\<rparr>)])))
   \<and> map_option versions (map_of (snd (delete_version [80] 1
        [([80], \<lparr>versions = [lone_version], current_version = 1\<rparr>)])) [80]) = Some []"
  by (simp add: delete_version_def get_all_keys_def lone_version_def)

lemma SecretVersion_from_to_dict:
  "well_formed_version d \<Longrightarrow>
    snd (SecretVersion_from_dict d w) = w
    \<and> SecretVersion_to_dict (fst (SecretVersion_from_dict d w)) = d"
  by (cases "d_timestamp d"; cases "d_metadata d")
     (simp_all add: well_formed_version_def SecretVersion_from_dict_def SecretVersion_init_def
       SecretVersion_to_dict_def)

lemma from_dict_versions_to_dict:
  "\<forall>d \<in> set ds. well_formed_version d \<Longrightarrow>
    snd (from_dict_versions ds w) = w
    \<and> map SecretVersion_to_dict (fst (from_dict_versions ds w)) = ds"
proof (induction ds)
  case Nil
  then show ?case by simp
next
  case (Cons d ds)
  then have d: "well_formed_version d" by simp
  show ?case
    using SecretVersion_from_to_dict [OF d, of w] Cons
    by (simp split: prod.splits) (metis fst_conv snd_conv)
qed

lemma update_fresh: "k \<notin> fst ` set al \<Longrightarrow> AList.update k v al = al @ [(k, v)]"
  by (induction al) auto

lemma from_dict_items_to_dict:
  assumes "distinct (map fst data)" and "fst ` set data \<inter> fst ` set s = {}"
    and "\<forall>key_data \<in> snd ` set data. \<forall>d \<in> set (d_versions key_data). well_formed_version d"
  shows "snd (from_dict_items data s w) = w
    \<and> to_dict (fst (from_dict_items data s w)) = to_dict s @ data"
  using assms
proof (induction data arbitrary: s)
  case Nil
  then show ?case by simp
next
  case (Cons item data)
  obtain key kd where item: "item = (key, kd)" by (cases item)
  have wf: "\<forall>d \<in> set (d_versions kd). well_formed_version d"
    using Cons.prems(3) item by simp
  note vs = from_dict_versions_to_dict [OF wf, of w]
  define e where "e = \<lparr> versions = fst (from_dict_versions (d_versions kd) w),
      current_version = d_current_version kd \<rparr>"
  have fresh: "key \<notin> fst ` set s" using Cons.prems(2) item by auto
  have step: "from_dict_items (item # data) s w = from_dict_items data (s @ [(key, e)]) w"
    using vs by (auto simp: item e_def update_fresh [OF fresh] split: prod.splits)
  have e: "to_dict [(key, e)] = [(key, kd)]"
    using vs by (simp add: to_dict_def e_def)
  have "snd (from_dict_items data (s @ [(key, e)]) w) = w
    \<and> to_dict (fst (from_dict_items data (s @ [(key, e)]) w)) = to_dict (s @ [(key, e)]) @ data"
  proof (rule Cons.IH)
    show "distinct (map fst data)" using Cons.prems(1) by simp
    show "fst ` set data \<inter> fst ` set (s @ [(key, e)]) = {}"
      using Cons.prems(1,2) item by auto
    show "\<forall>key_data \<in> snd ` set data. \<forall>d \<in> set (d_versions key_data). well_formed_version d"
      using Cons.prems(3) by simp
  qed
  moreover have "to_dict (s @ [(key, e)]) = to_dict s @ [(key, kd)]"
    using e by (simp add: to_dict_def)
  ultimately show ?case unfolding step by (simp add: item)
qed

text \<open>
  Claim C7. On every well-formed document \<open>from_dict\<close> followed by \<open>to_dict\<close> gives the
  document back, and the clock is not read: \<open>current_version\<close> is copied, not computed
  from the versions, and the versions keep their order and their metadata.
\<close>

theorem to_dict_from_dict_identity:
  assumes "well_formed_document data"
  shows "to_dict (fst (from_dict data w)) = data \<and> snd (from_dict data w) = w"
  using from_dict_items_to_dict [of data "[]" w] assms
  by (simp add: from_dict_def well_formed_document_def to_dict_def)

text \<open>
  The theorem at a document whose \<open>current_version\<close> 3 is above its last version 2.
\<close>

theorem to_dict_from_dict_identity_witness:
  "well_formed_document gap_document
   \<and> to_dict (fst (from_dict gap_document demo_world)) = gap_document
   \<and> snd (from_dict gap_document demo_world) = demo_world"
proof -
  have wf: "well_formed_document gap_document"
    by (simp add: well_formed_document_def gap_document_def well_formed_version_def)
  show ?thesis using to_dict_from_dict_identity [OF wf, of demo_world] wf by simp
qed

section \<open>Properties of vault.py\<close>

lemma fs_writable_os_urandom [simp]: "fs_writable (snd (os_urandom n w)) = fs_writable w"
  by (simp add: os_urandom_def)

lemma fs_writable_utcnow [simp]: "fs_writable (snd (utcnow w)) = fs_writable w"
  by (simp add: utcnow_def)

lemma encrypt_ok:
  assumes "length key = 32" and "utf8_encode val = Some d"
  shows "encrypt A val key w =
    (Inr \<lparr> ciphertext = Some (b64encode (aes_encrypt A key (fst (os_urandom 12 w)) d)),
           nonce = Some (b64encode (fst (os_urandom 12 w))) \<rparr>, snd (os_urandom 12 w))"
  using assms by (simp add: encrypt_def KEY_SIZE_def NONCE_SIZE_def split: prod.splits)

lemma get_version_latest_after_add:
  "get_version key None (fst (snd (add_version key ev md s w))) =
     Some (fst (SecretVersion_init (fst (add_version key ev md s w)) ev None md w))"
  by (simp add: add_version_def get_version_def Let_def update_conv' split: prod.splits option.splits)

lemma encrypted_value_init [simp]:
  "encrypted_value (fst (SecretVersion_init n ev ts md w)) = ev"
  by (simp add: SecretVersion_init_def split: prod.splits option.splits)

lemma keys_add_version:
  "key \<in> set (get_all_keys (fst (snd (add_version key ev md s w))))"
  by (simp add: add_version_def Let_def get_all_keys_def dom_update split: prod.splits)

lemma fs_writable_add_version [simp]:
  "fs_writable (snd (snd (add_version key ev md s w))) = fs_writable w"
  by (simp add: add_version_def Let_def SecretVersion_init_def utcnow_def split: prod.splits)

lemma length_list_versions_add_version:
  "length (list_versions key (fst (snd (add_version key ev md s w)))) =
     Suc (length (list_versions key s))"
  by (simp add: add_version_def list_versions_def Let_def update_conv'
      split: prod.splits option.splits)

lemma vault_set_get:
  assumes A: "aead_correct A" and len: "length (master_key v) = 32"
    and enc: "utf8_encode val \<noteq> None" and io: "auto_save v \<longrightarrow> fs_writable w"
  shows "\<exists>v' w'. vault_set A key val md v w =
        (Inr (case current_version_of (version_manager v) key of None \<Rightarrow> 1 | Some c \<Rightarrow> c + 1),
         v', w')
      \<and> master_key v' = master_key v \<and> auto_save v' = auto_save v
      \<and> fs_writable w' = fs_writable w
      \<and> key \<in> set (vault_list_keys v')
      \<and> length (list_versions key (version_manager v')) =
          Suc (length (list_versions key (version_manager v)))
      \<and> (\<forall>w2. fst (vault_get A key None v' w2) = Inr val)"
proof -
  from enc obtain d where d: "utf8_encode val = Some d" by auto
  define n0 where "n0 = fst (os_urandom 12 w)"
  define w1 where "w1 = snd (os_urandom 12 w)"
  define ev where "ev = \<lparr> ciphertext = Some (b64encode (aes_encrypt A (master_key v) n0 d)),
           nonce = Some (b64encode n0) \<rparr>"
  have e: "encrypt A val (master_key v) w = (Inr ev, w1)"
    using encrypt_ok [OF len d, of A w] by (simp add: ev_def n0_def w1_def)
  have n0: "length n0 = 12" by (simp add: n0_def length_os_urandom)
  have dec: "decrypt A ev (master_key v) = Inr val"
    unfolding ev_def by (rule decrypt_fresh_blob [OF A len n0 d])
  define n where "n = fst (add_version key ev md (version_manager v) w1)"
  define s' where "s' = fst (snd (add_version key ev md (version_manager v) w1))"
  define w2 where "w2 = snd (snd (add_version key ev md (version_manager v) w1))"
  have a: "add_version key ev md (version_manager v) w1 = (n, s', w2)"
    by (simp add: n_def s'_def w2_def)
  have nv: "n = (case current_version_of (version_manager v) key of None \<Rightarrow> 1 | Some c \<Rightarrow> c + 1)"
    unfolding n_def by (rule fst_add_version)
  have wr: "fs_writable w2 = fs_writable w"
    by (simp add: w2_def w1_def)
  define v1 where "v1 = v\<lparr>version_manager := s'\<rparr>"
  obtain w3 where save: "(if auto_save v1 then vault_save v1 w2 else Inr w2) = Inr w3"
      and wr3: "fs_writable w3 = fs_writable w"
    using io wr by (cases "auto_save v") (auto simp: v1_def vault_save_def storage_save_def)
  obtain logs w4 where lg: "audit_log SET (Some key) True None [LogVersion n] (audit_logger v1) w3
      = (logs, w4)" and wr4: "fs_writable w4 = fs_writable w3"
    by (simp add: audit_log_def utcnow_def split: prod.splits)
  have res: "vault_set A key val md v w = (Inr n, v1\<lparr>audit_logger := logs\<rparr>, w4)"
    using e a save lg by (auto simp: vault_set_def v1_def Let_def split: if_splits)
  have gv: "get_version key None s' =
      Some (fst (SecretVersion_init n ev None md w1))"
    unfolding s'_def n_def by (rule get_version_latest_after_add)
  have get: "fst (vault_get A key None (v1\<lparr>audit_logger := logs\<rparr>) wx) = Inr val" for wx
    using gv dec by (simp add: vault_get_def v1_def audit_log_def split: prod.splits)
  have keys: "key \<in> set (vault_list_keys (v1\<lparr>audit_logger := logs\<rparr>))"
    using keys_add_version [of key ev md "version_manager v" w1]
    by (simp add: vault_list_keys_def v1_def s'_def)
  have lv: "length (list_versions key (version_manager (v1\<lparr>audit_logger := logs\<rparr>))) =
      Suc (length (list_versions key (version_manager v)))"
    using length_list_versions_add_version [of key ev md "version_manager v" w1]
    by (simp add: v1_def s'_def)
  show ?thesis
    using res get keys wr3 wr4 lv by (simp add: v1_def nv)
qed

lemma vault_init_fresh:
  "secrets_file w = Missing \<Longrightarrow>
    version_manager (fst (vault_init key autosave w)) = []
    \<and> master_key (fst (vault_init key autosave w)) = key
    \<and> auto_save (fst (vault_init key autosave w)) = autosave
    \<and> fs_writable (snd (vault_init key autosave w)) = fs_writable w"
  by (simp add: vault_init_def load_secrets_def storage_load_def audit_log_def utcnow_def
      split: prod.splits)

lemma vault_delete_present:
  assumes "key \<in> set (vault_list_keys v)" and "auto_save v \<longrightarrow> fs_writable w"
  shows "fst (vault_delete key v w) = Inr True"
proof -
  have "map_of (version_manager v) key \<noteq> None"
    using assms(1) by (simp add: vault_list_keys_def get_all_keys_def map_of_eq_None_iff)
  then show ?thesis
    using assms(2)
    by (auto simp: vault_delete_def delete_key_def Let_def vault_save_def storage_save_def
        audit_log_def split: prod.splits)
qed

text \<open>
  Claim C3, as amended. For every key, every value that UTF-8 can encode and every vault
  whose master key has 32 bytes, \<open>set\<close> returns the key's previous \<open>current_version\<close>
  plus 1, or 1 when the key was absent, and \<open>get\<close> of the key then returns the value;
  this when the automatic save, if it is on, succeeds.
\<close>

theorem set_then_get:
  assumes "aead_correct A" and "length (master_key v) = 32" and "utf8_encode val \<noteq> None"
    and "auto_save v \<longrightarrow> fs_writable w"
  shows "\<exists>v' w'.
      vault_set A key val md v w =
        (Inr (case current_version_of (version_manager v) key of None \<Rightarrow> 1 | Some c \<Rightarrow> c + 1),
         v', w')
      \<and> (\<forall>w2. fst (vault_get A key None v' w2) = Inr val)"
  using vault_set_get [OF assms, of key md] by blast

text \<open>The theorem at the key \<open>"T"\<close>, whose \<open>current_version\<close> is 4, and the value \<open>"yo"\<close>.\<close>

theorem set_then_get_witness:
  "aead_correct demo_aead \<and> length (master_key stored_vault) = 32
   \<and> utf8_encode [121, 111] \<noteq> None
   \<and> auto_save stored_vault \<and> fs_writable demo_world
   \<and> (\<exists>v' w'. vault_set demo_aead [84] [121, 111] None stored_vault demo_world = (Inr 5, v', w')
         \<and> (\<forall>w2. fst (vault_get demo_aead [84] None v' w2) = Inr [121, 111]))"
proof -
  have l: "length (master_key stored_vault) = 32" by (simp add: stored_vault_def demo_key_def)
  have u: "utf8_encode [121, 111] \<noteq> None" by (simp add: utf8_encode_char_def)
  have io: "auto_save stored_vault \<longrightarrow> fs_writable demo_world" by (simp add: demo_world_def)
  have c: "current_version_of (version_manager stored_vault) [84] = Some 4"
    by (simp add: current_version_of_def stored_vault_def)
  have io': "auto_save stored_vault \<and> fs_writable demo_world"
    by (simp add: demo_world_def stored_vault_def)
  show ?thesis
    using set_then_get [OF demo_aead_correct l u io, of "[84]" None] demo_aead_correct l u io'
    by (simp add: c)
qed

text \<open>
  Claim C3 as stated fails: with the value \<open>"\udcff"\<close> \<open>set\<close> raises \<open>VaultError\<close>, no
  version is added, and \<open>get\<close> still returns the old value \<open>"hi"\<close>.
\<close>

theorem set_surrogate_counterexample:
  "fst (vault_set demo_aead [84] [0xDCFF] None stored_vault demo_world)
     = Inl (VaultError UnicodeEncodeError)
   \<and> fst (vault_get demo_aead [84] None
        (fst (snd (vault_set demo_aead [84] [0xDCFF] None stored_vault demo_world))) demo_world)
     = Inr [104, 105]"
proof -
  have e: "fst (encrypt demo_aead [0xDCFF] demo_key demo_world) = Inl UnicodeEncodeError"
    by (simp add: encrypt_def demo_key_def KEY_SIZE_def os_urandom_def utf8_encode_char_def
      split: prod.splits)
  have d: "decrypt demo_aead hi_blob demo_key = Inr [104, 105]"
    apply (simp add: decrypt_def KEY_SIZE_def hi_blob_def blob_of_def demo_key_def)
    apply (simp add: b64decode_def table_a2b_base64_def BASE64_PAD_def byte_of_def)
    apply (simp add: demo_aead_def utf8_decode_char_def)
    done
  show ?thesis
    using e d
    by (auto simp: vault_set_def vault_fail_def audit_log_def stored_vault_def vault_get_def
        get_version_def split: prod.splits sum.splits)
qed

text \<open>
  Claim C10, as amended. On a fresh vault (no vault file, a 32-byte master key) the empty
  string is accepted as a key: for every value that UTF-8 can encode, \<open>set\<close> returns 1,
  \<open>get\<close> returns the value, the empty string is among \<open>list_keys\<close>, \<open>list_versions\<close>
  shows one version and \<open>delete\<close> returns \<open>True\<close>; this when the automatic save, if it is
  on, succeeds.
\<close>

theorem empty_key_accepted:
  assumes "aead_correct A" and "length key = 32" and "utf8_encode val \<noteq> None"
    and "secrets_file w = Missing" and "autosave \<longrightarrow> fs_writable w"
  shows "\<exists>v1 w1.
      vault_set A [] val None (fst (vault_init key autosave w)) (snd (vault_init key autosave w))
        = (Inr 1, v1, w1)
      \<and> (\<forall>w2. fst (vault_get A [] None v1 w2) = Inr val)
      \<and> [] \<in> set (vault_list_keys v1)
      \<and> length (fst (vault_list_versions [] v1 w1)) = 1
      \<and> fst (vault_delete [] v1 w1) = Inr True"
proof -
  define v0 where "v0 = fst (vault_init key autosave w)"
  define w0 where "w0 = snd (vault_init key autosave w)"
  note f = vault_init_fresh [OF assms(4), of key autosave, folded v0_def w0_def]
  have l: "length (master_key v0) = 32" using f assms(2) by simp
  have io: "auto_save v0 \<longrightarrow> fs_writable w0" using f assms(5) by simp
  have c: "current_version_of (version_manager v0) [] = None"
    using f by (simp add: current_version_of_def)
  have n: "list_versions [] (version_manager v0) = []"
    using f by (simp add: list_versions_def)
  from vault_set_get [OF assms(1) l assms(3) io, of "[]" None]
  obtain v1 w1 where s: "vault_set A [] val None v0 w0 = (Inr 1, v1, w1)"
    and a: "auto_save v1 = auto_save v0" "fs_writable w1 = fs_writable w0"
    and k: "[] \<in> set (vault_list_keys v1)"
    and lv: "length (list_versions [] (version_manager v1)) = 1"
    and g: "\<forall>w2. fst (vault_get A [] None v1 w2) = Inr val"
    unfolding c n by auto
  have d: "fst (vault_delete [] v1 w1) = Inr True"
    using k io a by (intro vault_delete_present) simp_all
  have lv': "length (fst (vault_list_versions [] v1 w1)) = 1"
    using lv by (simp add: vault_list_versions_def Let_def audit_log_def split: prod.splits)
  show ?thesis
    using s g k d lv' unfolding v0_def w0_def by blast
qed

text \<open>The theorem at the value \<open>"hi"\<close>.\<close>

theorem empty_key_accepted_witness:
  "aead_correct demo_aead \<and> length demo_key = 32 \<and> utf8_encode [104, 105] \<noteq> None
   \<and> secrets_file demo_world = Missing \<and> fs_writable demo_world
   \<and> (\<exists>v1 w1.
        vault_set demo_aead [] [104, 105] None (fst (vault_init demo_key True demo_world))
            (snd (vault_init demo_key True demo_world)) = (Inr 1, v1, w1)
        \<and> (\<forall>w2. fst (vault_get demo_aead [] None v1 w2) = Inr [104, 105])
        \<and> [] \<in> set (vault_list_keys v1)
        \<and> length (fst (vault_list_versions [] v1 w1)) = 1
        \<and> fst (vault_delete [] v1 w1) = Inr True)"
proof -
  have l: "length demo_key = 32" by (simp add: demo_key_def)
  have u: "utf8_encode [104, 105] \<noteq> None" by (simp add: utf8_encode_char_def)
  have m: "secrets_file demo_world = Missing" by (simp add: demo_world_def)
  have io: "True \<longrightarrow> fs_writable demo_world" by (simp add: demo_world_def)
  show ?thesis
    using empty_key_accepted [OF demo_aead_correct l u m io] demo_aead_correct l u m
    by (simp add: demo_world_def)
qed

text \<open>
  Claim C10 as stated fails: on a fresh vault \<open>set\<close> of the empty key with the value
  \<open>"\udcff"\<close> raises \<open>VaultError\<close>.
\<close>

theorem empty_key_surrogate_counterexample:
  "fst (vault_set demo_aead [] [0xDCFF] None (fst (vault_init demo_key True demo_world))
          (snd (vault_init demo_key True demo_world)))
     = Inl (VaultError UnicodeEncodeError)"
proof -
  have e: "fst (encrypt demo_aead [0xDCFF] demo_key w) = Inl UnicodeEncodeError" for w
    by (simp add: encrypt_def demo_key_def KEY_SIZE_def os_urandom_def utf8_encode_char_def
      split: prod.splits)
  have m: "master_key (fst (vault_init demo_key True demo_world)) = demo_key"
    by (simp add: vault_init_def split: prod.splits)
  show ?thesis
    using e [of "snd (vault_init demo_key True demo_world)"]
    by (auto simp: vault_set_def vault_fail_def audit_log_def m split: prod.splits sum.splits)
qed

text \<open>
  Claim C4, as amended. When \<open>get\<close> finds the version and its decryption fails with an
  error \<open>e\<close>, the failure of the tag check included, \<open>get\<close> logs \<open>e\<close> and raises
  \<open>VaultError\<close> built from \<open>e\<close>; only \<open>SecretNotFoundError\<close> reaches the caller as it
  is.
\<close>

theorem get_wraps_authentication_error:
  "(get_version key ver (version_manager v) = None
      \<longrightarrow> fst (vault_get A key ver v w) = Inl SecretNotFoundError)
   \<and> (get_version key ver (version_manager v) = Some sv
        \<and> decrypt A (encrypted_value sv) (master_key v) = Inl e
      \<longrightarrow> fst (vault_get A key ver v w) = Inl (VaultError e)
          \<and> map log_error (audit_logger (fst (snd (vault_get A key ver v w))))
              = map log_error (audit_logger v) @ [Some e])"
  by (auto simp: vault_get_def vault_fail_def audit_log_def split: prod.splits)

lemma decrypt_hi_blob_other_key: "decrypt demo_aead hi_blob other_key = Inl AuthenticationError"
  apply (simp add: decrypt_def KEY_SIZE_def hi_blob_def blob_of_def other_key_def)
  apply (simp add: b64decode_def table_a2b_base64_def BASE64_PAD_def byte_of_def)
  apply (simp add: demo_aead_def)
  done

text \<open>The theorem at a missing key and at a vault opened with the wrong master key.\<close>

theorem get_wraps_authentication_error_witness:
  "get_version [88] None (version_manager wrong_key_vault) = None
   \<and> fst (vault_get demo_aead [88] None wrong_key_vault demo_world) = Inl SecretNotFoundError
   \<and> get_version [84] None (version_manager wrong_key_vault)
       = Some \<lparr> version = 4, encrypted_value = hi_blob, timestamp = [50, 48, 50, 53, 90],
               metadata = [] \<rparr>
   \<and> decrypt demo_aead hi_blob (master_key wrong_key_vault) = Inl AuthenticationError
   \<and> fst (vault_get demo_aead [84] None wrong_key_vault demo_world)
       = Inl (VaultError AuthenticationError)"
proof -
  have a: "get_version [88] None (version_manager wrong_key_vault) = None"
    by (simp add: wrong_key_vault_def stored_vault_def get_version_def)
  have b: "get_version [84] None (version_manager wrong_key_vault)
       = Some \<lparr> version = 4, encrypted_value = hi_blob, timestamp = [50, 48, 50, 53, 90],
               metadata = [] \<rparr>"
    by (simp add: wrong_key_vault_def stored_vault_def get_version_def)
  have c: "decrypt demo_aead hi_blob (master_key wrong_key_vault) = Inl AuthenticationError"
    by (simp add: wrong_key_vault_def decrypt_hi_blob_other_key)
  show ?thesis
    using get_wraps_authentication_error [where key = "[88]" and ver = None
        and v = wrong_key_vault and A = demo_aead and w = demo_world]
      get_wraps_authentication_error [where key = "[84]" and ver = None
        and v = wrong_key_vault and A = demo_aead and w = demo_world
        and e = AuthenticationError
        and sv = "\<lparr> version = 4, encrypted_value = hi_blob, timestamp = [50, 48, 50, 53, 90],
               metadata = [] \<rparr>"]
      a b c
    by simp
qed

text \<open>
  Claim C4 as stated fails: with the wrong master key the tag check fails and \<open>get\<close>
  raises \<open>VaultError\<close>, not the authentication error itself.
\<close>

theorem get_authentication_error_counterexample:
  "fst (vault_get demo_aead [84] None wrong_key_vault demo_world)
     = Inl (VaultError AuthenticationError)"
  using decrypt_hi_blob_other_key
  by (simp add: vault_get_def vault_fail_def audit_log_def wrong_key_vault_def stored_vault_def
      get_version_def split: prod.splits)

lemma utf8_decode_char_encodable:
  assumes "utf8_decode_char b bs = Some (cp, k)"
  shows "utf8_encode_char cp \<noteq> None"
proof -
  have lt: "unat b < 256" by (rule unat_byte_lt)
  have "cp < 0x110000 \<and> \<not> (0x800 \<le> cp \<and> 0xD800 \<le> cp \<and> cp \<le> 0xDFFF)"
  proof (cases "unat b < 0x80")
    case True
    then show ?thesis using assms by (simp add: utf8_decode_char_def)
  next
    case f1: False
    show ?thesis
    proof (cases "0xC2 \<le> unat b \<and> unat b < 0xE0")
      case True
      then obtain c1 r where bs: "bs = c1 # r" and c: "is_continuation c1"
        and cp: "cp = (unat b - 0xC0) * 64 + (unat c1 - 0x80)"
        using assms f1 by (auto simp: utf8_decode_char_def split: list.splits if_splits)
      have "unat b - 0xC0 < 32" using True by linarith
      moreover have "unat c1 - 0x80 < 64" using c unfolding is_continuation_def by linarith
      ultimately have "cp < 2048" unfolding cp by linarith
      then show ?thesis by simp
    next
      case f2: False
      show ?thesis
      proof (cases "0xE0 \<le> unat b \<and> unat b < 0xF0")
        case True
        then obtain c1 c2 r where bs: "bs = c1 # c2 # r"
          and c: "is_continuation c1" "is_continuation c2"
          and cp: "cp = (unat b - 0xE0) * 4096 + (unat c1 - 0x80) * 64 + (unat c2 - 0x80)"
          and ok: "\<not> (0xD800 \<le> cp \<and> cp \<le> 0xDFFF)"
          using assms f1 f2
          by (auto simp: utf8_decode_char_def Let_def split: list.splits if_splits)
        have "unat b - 0xE0 < 16" using True by linarith
        moreover have "unat c1 - 0x80 < 64" "unat c2 - 0x80 < 64"
          using c unfolding is_continuation_def by linarith+
        ultimately have "cp < 65536" unfolding cp by linarith
        then show ?thesis using ok by simp
      next
        case f3: False
        then show ?thesis
          using assms f1 f2
          by (auto simp: utf8_decode_char_def Let_def split: list.splits if_splits)
      qed
    qed
  qed
  then show ?thesis by (auto simp: utf8_encode_char_def)
qed

lemma utf8_decode_encodable: "utf8_decode bs = Some s \<Longrightarrow> utf8_encode s \<noteq> None"
proof (induction bs arbitrary: s rule: utf8_decode.induct)
  case 1
  then show ?case by simp
next
  case (2 b bs)
  from "2.prems" obtain cp k s' where d: "utf8_decode_char b bs = Some (cp, k)"
    and r: "utf8_decode (drop k bs) = Some s'" and s: "s = cp # s'"
    by (auto split: option.splits)
  from "2.IH" [OF d refl r] have "utf8_encode s' \<noteq> None" .
  with utf8_decode_char_encodable [OF d] show ?case by (auto simp: s)
qed

lemma decrypt_plaintext_encodable: "decrypt A b k = Inr p \<Longrightarrow> utf8_encode p \<noteq> None"
  by (auto simp: decrypt_def dest!: utf8_decode_encodable
      split: if_splits option.splits sum.splits aead_failure.splits)

section \<open>Properties of rotation\<close>

lemma skip_entropy_0 [simp]: "skip_entropy 0 w = w"
  by (simp add: skip_entropy_def)

lemma skip_entropy_add: "skip_entropy a (skip_entropy b w) = skip_entropy (b + a) w"
  by (simp add: skip_entropy_def add.assoc add.commute [of a b])

lemma snd_os_urandom: "snd (os_urandom n w) = skip_entropy n w"
  by (simp add: os_urandom_def skip_entropy_def)

lemma rotate_version_ok:
  assumes A: "aead_correct A" and len: "length new_key = 32"
    and dec: "decrypt A (encrypted_value sv) old_key = Inr p"
  shows "snd (rotate_version A old_key new_key key sv w) = skip_entropy 12 w
    \<and> rotated A old_key new_key w sv (fst (rotate_version A old_key new_key key sv w))"
proof -
  from decrypt_plaintext_encodable [OF dec] obtain d where d: "utf8_encode p = Some d" by auto
  define b where "b = \<lparr> ciphertext = Some (b64encode (aes_encrypt A new_key (fst (os_urandom 12 w)) d)),
           nonce = Some (b64encode (fst (os_urandom 12 w))) \<rparr>"
  have e: "encrypt A p new_key w = (Inr b, skip_entropy 12 w)"
    using encrypt_ok [OF len d, of A w] by (simp add: b_def snd_os_urandom)
  have "decrypt A b new_key = Inr p"
    unfolding b_def by (rule decrypt_fresh_blob [OF A len _ d]) (simp add: length_os_urandom)
  moreover have "nonce b = Some (b64encode (fst (os_urandom NONCE_SIZE w)))"
    by (simp add: b_def NONCE_SIZE_def)
  ultimately show ?thesis
    using dec e by (simp add: rotate_version_def rotated_def)
qed

lemma rotate_versions_ok:
  assumes A: "aead_correct A" and len: "length new_key = 32"
    and dec: "\<forall>sv \<in> set vs. \<exists>p. decrypt A (encrypted_value sv) old_key = Inr p"
  shows "snd (rotate_versions A old_key new_key key vs w) = skip_entropy (12 * length vs) w
    \<and> length (fst (rotate_versions A old_key new_key key vs w)) = length vs
    \<and> (\<forall>i < length vs.
          rotated A old_key new_key (skip_entropy (12 * i) w) (vs ! i)
            (fst (rotate_versions A old_key new_key key vs w) ! i))"
  using dec
proof (induction vs arbitrary: w)
  case Nil
  show ?case by simp
next
  case (Cons sv vs)
  from Cons.prems obtain p where p: "decrypt A (encrypted_value sv) old_key = Inr p" by auto
  note h = rotate_version_ok [OF A len p, of key w]
  define sv' where "sv' = fst (rotate_version A old_key new_key key sv w)"
  define w1 where "w1 = skip_entropy 12 w"
  have rv: "rotate_version A old_key new_key key sv w = (sv', w1)"
    using h by (simp add: sv'_def w1_def prod_eq_iff)
  have r: "rotated A old_key new_key w sv sv'" using h by (simp add: sv'_def)
  have "\<forall>sv \<in> set vs. \<exists>p. decrypt A (encrypted_value sv) old_key = Inr p"
    using Cons.prems by simp
  note ih = Cons.IH [OF this, of w1]
  define vs' where "vs' = fst (rotate_versions A old_key new_key key vs w1)"
  have rvs: "rotate_versions A old_key new_key key vs w1 = (vs', skip_entropy (12 * length vs) w1)"
    using ih by (simp add: vs'_def prod_eq_iff)
  have res: "rotate_versions A old_key new_key key (sv # vs) w
      = (sv' # vs', skip_entropy (12 * length vs) w1)"
    by (simp add: rv rvs)
  have w': "skip_entropy (12 * length vs) w1 = skip_entropy (12 * length (sv # vs)) w"
    by (simp add: w1_def skip_entropy_add)
  have nth: "rotated A old_key new_key (skip_entropy (12 * i) w) ((sv # vs) ! i) ((sv' # vs') ! i)"
    if "i < length (sv # vs)" for i
  proof (cases i)
    case 0
    then show ?thesis using r by simp
  next
    case (Suc j)
    then have "j < length vs" using that by simp
    with ih have "rotated A old_key new_key (skip_entropy (12 * j) w1) (vs ! j) (vs' ! j)"
      by (simp add: vs'_def)
    moreover have "skip_entropy (12 * j) w1 = skip_entropy (12 * i) w"
      by (simp add: w1_def skip_entropy_add Suc)
    ultimately show ?thesis by (simp add: Suc)
  qed
  have "length vs' = length vs" using ih by (simp add: vs'_def)
  then show ?case
    unfolding res using w' nth by simp
qed

lemma all_versions_Cons:
  "all_versions ((key, e) # rest) = map (Pair key) (versions e) @ all_versions rest"
  by (simp add: all_versions_def)

lemma rotate_key_ok:
  assumes A: "aead_correct A" and len: "length new_key = 32"
    and dec: "\<forall>x \<in> set (all_versions s). \<exists>p. decrypt A (encrypted_value (snd x)) old_key = Inr p"
  shows "snd (rotate_key A old_key new_key s w) = skip_entropy (12 * length (all_versions s)) w
    \<and> length (all_versions (fst (rotate_key A old_key new_key s w))) = length (all_versions s)
    \<and> (\<forall>j < length (all_versions s).
          fst (all_versions (fst (rotate_key A old_key new_key s w)) ! j) = fst (all_versions s ! j)
          \<and> rotated A old_key new_key (skip_entropy (12 * j) w) (snd (all_versions s ! j))
              (snd (all_versions (fst (rotate_key A old_key new_key s w)) ! j)))
    \<and> list_all2 (rotated_entry A old_key new_key) s (fst (rotate_key A old_key new_key s w))"
  using dec
proof (induction s arbitrary: w)
  case Nil
  show ?case by (simp add: all_versions_def)
next
  case (Cons x rest)
  obtain key e where x: "x = (key, e)" by (cases x)
  have dv: "\<forall>sv \<in> set (versions e). \<exists>p. decrypt A (encrypted_value sv) old_key = Inr p"
  proof
    fix sv assume "sv \<in> set (versions e)"
    then have "(key, sv) \<in> set (all_versions (x # rest))" by (simp add: x all_versions_Cons)
    with Cons.prems show "\<exists>p. decrypt A (encrypted_value sv) old_key = Inr p" by fastforce
  qed
  have dr: "\<forall>x \<in> set (all_versions rest). \<exists>p. decrypt A (encrypted_value (snd x)) old_key = Inr p"
    using Cons.prems by (auto simp: x all_versions_Cons)
  note hv = rotate_versions_ok [OF A len dv, of key w]
  define n where "n = length (versions e)"
  define vs' where "vs' = fst (rotate_versions A old_key new_key key (versions e) w)"
  define w1 where "w1 = skip_entropy (12 * n) w"
  have rvs: "rotate_versions A old_key new_key key (versions e) w = (vs', w1)"
    using hv by (simp add: vs'_def w1_def n_def prod_eq_iff)
  have lvs: "length vs' = n" using hv by (simp add: vs'_def n_def)
  have rot: "rotated A old_key new_key (skip_entropy (12 * i) w) (versions e ! i) (vs' ! i)"
    if "i < n" for i using hv that by (simp add: vs'_def n_def)
  note ih = Cons.IH [OF dr, of w1]
  define rest' where "rest' = fst (rotate_key A old_key new_key rest w1)"
  define m where "m = length (all_versions rest)"
  have rk: "rotate_key A old_key new_key rest w1 = (rest', skip_entropy (12 * m) w1)"
    using ih by (simp add: rest'_def m_def prod_eq_iff)
  have lr: "length (all_versions rest') = m" using ih by (simp add: rest'_def m_def)
  have res: "rotate_key A old_key new_key (x # rest) w
      = ((key, e\<lparr>versions := vs'\<rparr>) # rest', skip_entropy (12 * m) w1)"
    by (simp add: x rvs rk)
  have av: "all_versions (x # rest) = map (Pair key) (versions e) @ all_versions rest"
    by (simp add: x all_versions_Cons)
  have av': "all_versions ((key, e\<lparr>versions := vs'\<rparr>) # rest') = map (Pair key) vs' @ all_versions rest'"
    by (simp add: all_versions_Cons)
  have 1: "skip_entropy (12 * m) w1 = skip_entropy (12 * length (all_versions (x # rest))) w"
    by (simp add: w1_def skip_entropy_add av n_def m_def)
  have 2: "length (all_versions ((key, e\<lparr>versions := vs'\<rparr>) # rest')) = length (all_versions (x # rest))"
    by (simp add: av av' lvs lr n_def m_def)
  have 3: "fst (all_versions ((key, e\<lparr>versions := vs'\<rparr>) # rest') ! j) = fst (all_versions (x # rest) ! j)
      \<and> rotated A old_key new_key (skip_entropy (12 * j) w) (snd (all_versions (x # rest) ! j))
          (snd (all_versions ((key, e\<lparr>versions := vs'\<rparr>) # rest') ! j))"
    if j: "j < length (all_versions (x # rest))" for j
  proof (cases "j < n")
    case True
    then show ?thesis
      using rot [OF True] by (simp add: av av' nth_append lvs n_def [symmetric])
  next
    case False
    define i where "i = j - n"
    have i: "i < m" using j False by (simp add: i_def av n_def m_def)
    have ji: "j = n + i" using False by (simp add: i_def)
    from ih i have "fst (all_versions rest' ! i) = fst (all_versions rest ! i)
        \<and> rotated A old_key new_key (skip_entropy (12 * i) w1) (snd (all_versions rest ! i))
           (snd (all_versions rest' ! i))"
      by (simp add: rest'_def m_def)
    moreover have "skip_entropy (12 * i) w1 = skip_entropy (12 * j) w"
      by (simp add: w1_def skip_entropy_add ji)
    ultimately show ?thesis
      using False by (simp add: av av' nth_append lvs n_def [symmetric] i_def)
  qed
  have "list_all2 (\<lambda>sv sv'. \<exists>w0. rotated A old_key new_key w0 sv sv') (versions e) vs'"
    unfolding list_all2_conv_all_nth using rot lvs by (auto simp: n_def)
  then have head: "rotated_entry A old_key new_key x (key, e\<lparr>versions := vs'\<rparr>)"
    by (simp add: x rotated_entry_def)
  have tail: "list_all2 (rotated_entry A old_key new_key) rest rest'"
    using ih by (simp add: rest'_def)
  have 4: "list_all2 (rotated_entry A old_key new_key) (x # rest)
      ((key, e\<lparr>versions := vs'\<rparr>) # rest')"
    using head tail by simp
  show ?case
    unfolding res using 1 2 3 4 by simp
qed

lemma map_of_rotated:
  assumes "list_all2 (rotated_entry A old_key new_key) s s'"
  shows "(map_of s key = None \<and> map_of s' key = None)
    \<or> (\<exists>e e'. map_of s key = Some e \<and> map_of s' key = Some e'
          \<and> rotated_entry A old_key new_key (key, e) (key, e'))"
  using assms
proof (induction rule: list_all2_induct)
  case Nil
  show ?case by simp
next
  case (Cons x xs y ys)
  obtain k e where x: "x = (k, e)" by (cases x)
  obtain k' e' where y: "y = (k', e')" by (cases y)
  have k: "k' = k" using Cons.hyps(1) by (simp add: x y rotated_entry_def)
  show ?case
  proof (cases "k = key")
    case True
    then show ?thesis using Cons.hyps(1) by (simp add: x y k)
  next
    case False
    then show ?thesis using Cons.IH by (simp add: x y k)
  qed
qed

lemma find_rotated:
  assumes "list_all2 R xs ys" and "\<And>x y. R x y \<Longrightarrow> P x = Q y"
  shows "(find P xs = None \<and> find Q ys = None)
    \<or> (\<exists>x y. find P xs = Some x \<and> find Q ys = Some y \<and> R x y)"
  using assms(1)
proof (induction rule: list_all2_induct)
  case Nil
  show ?case by simp
next
  case (Cons x xs y ys)
  then show ?case using assms(2) [OF Cons.hyps(1)] by auto
qed

lemma last_rotated:
  assumes "list_all2 R xs ys" and "xs \<noteq> []"
  shows "R (last xs) (last ys)"
proof -
  have l: "length xs = length ys" using assms(1) by (rule list_all2_lengthD)
  then have "ys \<noteq> []" using assms(2) by auto
  then show ?thesis
    using assms l by (simp add: last_conv_nth list_all2_conv_all_nth)
qed

lemma get_version_rotated:
  assumes "list_all2 (rotated_entry A old_key new_key) s s'"
  shows "(get_version key ver s = None \<and> get_version key ver s' = None)
    \<or> (\<exists>sv sv' w0. get_version key ver s = Some sv \<and> get_version key ver s' = Some sv'
          \<and> rotated A old_key new_key w0 sv sv')"
proof -
  from map_of_rotated [OF assms, of key]
  consider "map_of s key = None" "map_of s' key = None"
    | e e' where "map_of s key = Some e" "map_of s' key = Some e'"
        "rotated_entry A old_key new_key (key, e) (key, e')"
    by auto
  then show ?thesis
  proof cases
    case 1
    then show ?thesis by (simp add: get_version_def)
  next
    case 2
    let ?R = "\<lambda>sv sv'. \<exists>w0. rotated A old_key new_key w0 sv sv'"
    have r: "list_all2 ?R (versions e) (versions e')"
      using 2(3) by (simp add: rotated_entry_def)
    then have len: "length (versions e) = length (versions e')" by (rule list_all2_lengthD)
    show ?thesis
    proof (cases "versions e = []")
      case True
      then show ?thesis using 2 len by (simp add: get_version_def)
    next
      case False
      then have ne: "versions e' \<noteq> []" using len by auto
      show ?thesis
      proof (cases ver)
        case None
        from last_rotated [OF r False] show ?thesis
          using 2 False ne None by (simp add: get_version_def)
      next
        case (Some n)
        have "?R x y \<Longrightarrow> (version x = n) = (version y = n)" for x y
          by (auto simp: rotated_def)
        from find_rotated [where P = "\<lambda>v. version v = n" and Q = "\<lambda>v. version v = n",
            OF r this] show ?thesis
          using 2 False ne Some by (auto simp: get_version_def)
      qed
    qed
  qed
qed

lemma vault_get_rotated:
  assumes "list_all2 (rotated_entry A (master_key v) new_key) (version_manager v) (version_manager v')"
    and "master_key v' = new_key"
  shows "fst (vault_get A key ver v' wa) = fst (vault_get A key ver v wb)"
proof -
  from get_version_rotated [OF assms(1), of key ver]
  consider "get_version key ver (version_manager v) = None"
      "get_version key ver (version_manager v') = None"
    | sv sv' w0 where "get_version key ver (version_manager v) = Some sv"
      "get_version key ver (version_manager v') = Some sv'"
      "rotated A (master_key v) new_key w0 sv sv'"
    by auto
  then show ?thesis
  proof cases
    case 1
    then show ?thesis by (simp add: vault_get_def audit_log_def split: prod.splits)
  next
    case 2
    from 2(3) obtain p where "decrypt A (encrypted_value sv) (master_key v) = Inr p"
      "decrypt A (encrypted_value sv') new_key = Inr p"
      by (auto simp: rotated_def)
    then show ?thesis
      using 2(1,2) assms(2) by (simp add: vault_get_def audit_log_def split: prod.splits)
  qed
qed

lemma fs_writable_print [simp]: "fs_writable (print m w) = fs_writable w"
  by (simp add: print_def)

lemma fs_writable_encrypt [simp]: "fs_writable (snd (encrypt A p k w)) = fs_writable w"
  by (simp add: encrypt_def os_urandom_def split: prod.splits option.splits)

lemma fs_writable_rotate_version [simp]:
  "fs_writable (snd (rotate_version A old_key new_key key sv w)) = fs_writable w"
proof (cases "decrypt A (encrypted_value sv) old_key")
  case (Inl e)
  then show ?thesis by (simp add: rotate_version_def)
next
  case (Inr p)
  obtain r w' where e: "encrypt A p new_key w = (r, w')" by (cases "encrypt A p new_key w")
  then have "fs_writable w' = fs_writable w" using fs_writable_encrypt [of A p new_key w] by simp
  then show ?thesis using Inr e by (cases r) (simp_all add: rotate_version_def)
qed

lemma fs_writable_rotate_versions [simp]:
  "fs_writable (snd (rotate_versions A old_key new_key key vs w)) = fs_writable w"
proof (induction vs arbitrary: w)
  case Nil
  show ?case by simp
next
  case (Cons sv vs)
  show ?case
    by (simp add: case_prod_beta Cons)
qed

lemma fs_writable_rotate_key [simp]:
  "fs_writable (snd (rotate_key A old_key new_key s w)) = fs_writable w"
proof (induction s arbitrary: w)
  case Nil
  show ?case by simp
next
  case (Cons x s)
  obtain key e where x: "x = (key, e)" by (cases x)
  show ?case
    by (simp add: x case_prod_beta Cons)
qed

lemma vault_rotate_state:
  "version_manager (fst (snd (vault_rotate A (Some new_key) v w)))
      = fst (rotate_key A (master_key v) new_key (version_manager v) w)
   \<and> master_key (fst (snd (vault_rotate A (Some new_key) v w))) = new_key
   \<and> (fs_writable w \<and> new_key \<noteq> []
        \<longrightarrow> fst (vault_rotate A (Some new_key) v w) = Inr (Some new_key))"
  by (simp add: vault_rotate_def Let_def vault_fail_def audit_log_def vault_save_def
      storage_save_def case_prod_beta)

text \<open>
  Claim C2. Let every stored version decrypt under the master key of the vault, and let
  the new key have 32 bytes. After \<open>rotate\<close> with the new key, whether or not the save
  succeeds, the master key is the new key, and \<open>get\<close> returns for every key and every
  version selector what it returned before (the same plaintext, or
  \<open>SecretNotFoundError\<close> where nothing was stored). The versions are the same in
  number and order, each with its key, number, timestamp and metadata, and the \<open>j\<close>-th of
  them carries the blob that \<open>encrypt\<close> returns for its plaintext under the new key
  after \<open>12 * j\<close> random bytes have been read: a ciphertext and a nonce of its own draw.
  When the file system accepts the save, \<open>rotate\<close> returns the new key.
\<close>

theorem rotate_preserves_plaintexts:
  assumes "aead_correct A" and "all_decrypt A v" and "length new_key = 32"
  shows "let v' = fst (snd (vault_rotate A (Some new_key) v w));
             before = all_versions (version_manager v);
             after = all_versions (version_manager v')
         in master_key v' = new_key
          \<and> (fs_writable w \<longrightarrow> fst (vault_rotate A (Some new_key) v w) = Inr (Some new_key))
          \<and> (\<forall>key ver wa wb. fst (vault_get A key ver v' wa) = fst (vault_get A key ver v wb))
          \<and> length after = length before
          \<and> (\<forall>j < length before.
                fst (after ! j) = fst (before ! j)
                \<and> rotated A (master_key v) new_key (skip_entropy (12 * j) w)
                     (snd (before ! j)) (snd (after ! j)))"
proof -
  define v' where "v' = fst (snd (vault_rotate A (Some new_key) v w))"
  note st = vault_rotate_state [of A new_key v w, folded v'_def]
  have dec: "\<forall>x \<in> set (all_versions (version_manager v)).
      \<exists>p. decrypt A (encrypted_value (snd x)) (master_key v) = Inr p"
    using assms(2) by (simp add: all_decrypt_def)
  note rk = rotate_key_ok [OF assms(1,3) dec, of w]
  have vm: "version_manager v' = fst (rotate_key A (master_key v) new_key (version_manager v) w)"
    using st by simp
  have mk: "master_key v' = new_key" using st by simp
  have ne: "new_key \<noteq> []" using assms(3) by auto
  have r: "fs_writable w \<longrightarrow> fst (vault_rotate A (Some new_key) v w) = Inr (Some new_key)"
    using st ne by simp
  have rel: "list_all2 (rotated_entry A (master_key v) new_key) (version_manager v)
      (version_manager v')"
    using rk by (simp add: vm)
  have g: "fst (vault_get A key ver v' wa) = fst (vault_get A key ver v wb)" for key ver wa wb
    by (rule vault_get_rotated [OF rel mk])
  show ?thesis
    unfolding Let_def v'_def [symmetric] using mk r g rk by (simp add: vm)
qed

lemma decrypt_hi_blob: "decrypt demo_aead hi_blob demo_key = Inr [104, 105]"
  apply (simp add: decrypt_def KEY_SIZE_def hi_blob_def blob_of_def demo_key_def)
  apply (simp add: b64decode_def table_a2b_base64_def BASE64_PAD_def byte_of_def)
  apply (simp add: demo_aead_def utf8_decode_char_def)
  done

lemma decrypt_yo_blob: "decrypt demo_aead yo_blob demo_key = Inr [121, 111]"
  apply (simp add: decrypt_def KEY_SIZE_def yo_blob_def blob_of_def demo_key_def)
  apply (simp add: b64decode_def table_a2b_base64_def BASE64_PAD_def byte_of_def)
  apply (simp add: demo_aead_def utf8_decode_char_def)
  done

text \<open>
  The theorem at \<open>two_vault\<close>: after the rotation to \<open>other_key\<close> the two secrets read
  \<open>"hi"\<close> and \<open>"yo"\<close>.
\<close>

theorem rotate_preserves_plaintexts_witness:
  "aead_correct demo_aead \<and> all_decrypt demo_aead two_vault \<and> length other_key = 32
   \<and> master_key (fst (snd (vault_rotate demo_aead (Some other_key) two_vault demo_world)))
       = other_key
   \<and> fst (vault_rotate demo_aead (Some other_key) two_vault demo_world) = Inr (Some other_key)
   \<and> fst (vault_get demo_aead [115, 49] None
        (fst (snd (vault_rotate demo_aead (Some other_key) two_vault demo_world))) demo_world)
       = Inr [104, 105]
   \<and> fst (vault_get demo_aead [115, 50] (Some 1)
        (fst (snd (vault_rotate demo_aead (Some other_key) two_vault demo_world))) demo_world)
       = Inr [121, 111]"
proof -
  have d: "all_decrypt demo_aead two_vault"
    by (simp add: all_decrypt_def all_versions_def two_vault_def decrypt_hi_blob decrypt_yo_blob)
  have l: "length other_key = 32" by (simp add: other_key_def)
  have g1: "fst (vault_get demo_aead [115, 49] None two_vault demo_world) = Inr [104, 105]"
    by (simp add: vault_get_def two_vault_def get_version_def decrypt_hi_blob audit_log_def
        split: prod.splits)
  have g2: "fst (vault_get demo_aead [115, 50] (Some 1) two_vault demo_world) = Inr [121, 111]"
    by (simp add: vault_get_def two_vault_def get_version_def decrypt_yo_blob audit_log_def
        split: prod.splits)
  have w: "fs_writable demo_world" by (simp add: demo_world_def)
  note t = rotate_preserves_plaintexts [OF demo_aead_correct d l, of demo_world,
      unfolded Let_def]
  have e1: "fst (vault_get demo_aead [115, 49] None
        (fst (snd (vault_rotate demo_aead (Some other_key) two_vault demo_world))) demo_world)
      = fst (vault_get demo_aead [115, 49] None two_vault demo_world)"
    using t by blast
  have e2: "fst (vault_get demo_aead [115, 50] (Some 1)
        (fst (snd (vault_rotate demo_aead (Some other_key) two_vault demo_world))) demo_world)
      = fst (vault_get demo_aead [115, 50] (Some 1) two_vault demo_world)"
    using t by blast
  show ?thesis
    using t demo_aead_correct d l w by (simp add: e1 e2 g1 g2)
qed

lemma decrypt_tampered_blob:
  "decrypt demo_aead tampered_blob demo_key = Inl AuthenticationError"
  apply (simp add: decrypt_def KEY_SIZE_def tampered_blob_def blob_of_def demo_key_def)
  apply (simp add: b64decode_def table_a2b_base64_def BASE64_PAD_def byte_of_def)
  apply (simp add: demo_aead_def)
  done

lemma os_urandom_demo:
  "os_urandom 12 demo_world =
    ([1, 2, 3, 4, 5, 6, 7, 8, 9, 10, 11, 12], skip_entropy 12 demo_world)"
  by (simp add: os_urandom_def skip_entropy_def demo_world_def byte_of_def upt_rec)

lemma encrypt_yo_other_key:
  "encrypt demo_aead [121, 111] other_key demo_world =
    (Inr (blob_of [101, 110, 65, 71, 67, 120, 65, 86, 71, 104, 56, 107, 75, 83, 52, 122, 79, 68,
                   49, 67, 82, 48, 120, 82]
                  [65, 81, 73, 68, 66, 65, 85, 71, 66, 119, 103, 74, 67, 103, 115, 77]),
     skip_entropy 12 demo_world)"
  apply (simp add: encrypt_def KEY_SIZE_def NONCE_SIZE_def os_urandom_demo)
  apply (simp add: other_key_def utf8_encode_char_def byte_of_def demo_aead_def blob_of_def)
  apply (simp add: table_b2a_base64_def BASE64_PAD_def)
  done

lemma rotate_key_broken:
  "rotate_key demo_aead demo_key other_key (version_manager broken_vault) demo_world =
    ([([115, 49], \<lparr> versions = [\<lparr> version = 1, encrypted_value = tampered_blob,
                                       timestamp = [50, 48, 50, 53, 90], metadata = [] \<rparr>],
                       current_version = 1 \<rparr>),
      ([115, 50], \<lparr> versions = [\<lparr> version = 1, encrypted_value =
                                       blob_of [101, 110, 65, 71, 67, 120, 65, 86, 71, 104, 56,
                                                107, 75, 83, 52, 122, 79, 68, 49, 67, 82, 48,
                                                120, 82]
                                               [65, 81, 73, 68, 66, 65, 85, 71, 66, 119, 103, 74,
                                                67, 103, 115, 77],
                                       timestamp = [50, 48, 50, 53, 90], metadata = [] \<rparr>],
                       current_version = 1 \<rparr>)],
     skip_entropy 12 (print (RotateWarning [115, 49] 1 AuthenticationError) demo_world))"
proof -
  have e: "encrypt demo_aead [121, 111] other_key
      (print (RotateWarning [115, 49] 1 AuthenticationError) demo_world) =
    (Inr (blob_of [101, 110, 65, 71, 67, 120, 65, 86, 71, 104, 56, 107, 75, 83, 52, 122, 79, 68,
                   49, 67, 82, 48, 120, 82]
                  [65, 81, 73, 68, 66, 65, 85, 71, 66, 119, 103, 74, 67, 103, 115, 77]),
     skip_entropy 12 (print (RotateWarning [115, 49] 1 AuthenticationError) demo_world))"
    using encrypt_yo_other_key
    by (simp add: encrypt_def KEY_SIZE_def NONCE_SIZE_def os_urandom_def print_def
        skip_entropy_def split: option.splits if_splits)
  show ?thesis
    by (simp add: broken_vault_def rotate_version_def decrypt_tampered_blob decrypt_yo_blob e)
qed

lemma stdout_audit_log [simp]: "stdout (snd (audit_log operation key ok err md logs w)) = stdout w"
  by (simp add: audit_log_def utcnow_def)

lemma vault_rotate_stdout:
  "stdout (snd (snd (vault_rotate A (Some new_key) v w)))
     = stdout (snd (rotate_key A (master_key v) new_key (version_manager v) w))"
  by (simp add: vault_rotate_def Let_def vault_fail_def vault_save_def storage_save_def
      case_prod_beta)

text \<open>
  Claim C1 against the code, at \<open>broken_vault\<close>. Decrypting the version of \<open>"s1"\<close> fails
  with the authentication error. \<open>rotate\<close> prints a warning, goes on, re-encrypts the
  version of \<open>"s2"\<close> and returns the new key as a success; the master key is replaced.
  The blob of \<open>"s1"\<close> is still the one written under the old key, which the vault no
  longer holds, and \<open>get\<close> of \<open>"s1"\<close> fails.
\<close>

theorem rotate_partial_failure:
  "fst (vault_rotate demo_aead (Some other_key) broken_vault demo_world) = Inr (Some other_key)
   \<and> master_key (fst (snd (vault_rotate demo_aead (Some other_key) broken_vault demo_world)))
       = other_key
   \<and> map (\<lambda>(key, e). (key, map encrypted_value (versions e)))
        (version_manager
          (fst (snd (vault_rotate demo_aead (Some other_key) broken_vault demo_world))))
       = [([115, 49], [tampered_blob]),
          ([115, 50],
           [blob_of [101, 110, 65, 71, 67, 120, 65, 86, 71, 104, 56, 107, 75, 83, 52, 122, 79,
                     68, 49, 67, 82, 48, 120, 82]
                    [65, 81, 73, 68, 66, 65, 85, 71, 66, 119, 103, 74, 67, 103, 115, 77]])]
   \<and> stdout (snd (snd (vault_rotate demo_aead (Some other_key) broken_vault demo_world)))
       = [RotateWarning [115, 49] 1 AuthenticationError]
   \<and> decrypt demo_aead tampered_blob demo_key = Inl AuthenticationError
   \<and> fst (vault_get demo_aead [115, 49] None
        (fst (snd (vault_rotate demo_aead (Some other_key) broken_vault demo_world))) demo_world)
       = Inl (VaultError AuthenticationError)"
proof -
  let ?v' = "fst (snd (vault_rotate demo_aead (Some other_key) broken_vault demo_world))"
  have m: "master_key broken_vault = demo_key" by (simp add: broken_vault_def)
  have o: "other_key \<noteq> []" by (simp add: other_key_def)
  have w: "fs_writable demo_world" by (simp add: demo_world_def)
  have d: "decrypt demo_aead tampered_blob other_key = Inl AuthenticationError"
    apply (simp add: decrypt_def KEY_SIZE_def tampered_blob_def blob_of_def other_key_def)
    apply (simp add: b64decode_def table_a2b_base64_def BASE64_PAD_def byte_of_def)
    apply (simp add: demo_aead_def)
    done
  note st = vault_rotate_state [of demo_aead other_key broken_vault demo_world]
  have r: "fst (vault_rotate demo_aead (Some other_key) broken_vault demo_world)
      = Inr (Some other_key)"
    using st o w by simp
  have k: "master_key ?v' = other_key" using st by simp
  have vm: "version_manager ?v' =
      fst (rotate_key demo_aead demo_key other_key (version_manager broken_vault) demo_world)"
    using st by (simp add: m)
  have out: "stdout (snd (snd (vault_rotate demo_aead (Some other_key) broken_vault demo_world)))
      = stdout (snd (rotate_key demo_aead demo_key other_key (version_manager broken_vault)
          demo_world))"
    using vault_rotate_stdout [of demo_aead other_key broken_vault demo_world] by (simp add: m)
  have s0: "stdout (skip_entropy 12 (print (RotateWarning [115, 49] 1 AuthenticationError)
      demo_world)) = [RotateWarning [115, 49] 1 AuthenticationError]"
    by (simp add: skip_entropy_def print_def demo_world_def)
  have g: "fst (vault_get demo_aead [115, 49] None ?v' demo_world)
      = Inl (VaultError AuthenticationError)"
    by (simp add: vault_get_def vm k rotate_key_broken get_version_def d vault_fail_def
        audit_log_def split: prod.splits)
  show ?thesis
    using r k g by (simp add: vm out rotate_key_broken s0 decrypt_tampered_blob)
qed

end
